theory Spec2Isabelle
  imports Complex_Main
begin

section \<open>JavaScript strings\<close>

text \<open>
  Texts are lists of 8-bit code units (the Latin-1 range of the UTF-16 code units of a
  JavaScript string). On that range, the white space of \<open>\s\<close> and of \<open>trim\<close> is
  TAB, LF, VT, FF, CR, SPACE and NBSP, and the line terminators are LF and CR.
\<close>

definition isLineTerminator :: "char \<Rightarrow> bool" where
  "isLineTerminator c \<longleftrightarrow> c = CHR 0x0A \<or> c = CHR 0x0D"

definition isWhiteSpace :: "char \<Rightarrow> bool" where
  "isWhiteSpace c \<longleftrightarrow> c \<in> {CHR 0x09, CHR 0x0A, CHR 0x0B, CHR 0x0C, CHR 0x0D, CHR 0x20, CHR 0xA0}"

definition lowerLetters :: string where
  "lowerLetters = ''abcdefghijklmnopqrstuvwxyz'' @
     [CHR 0xE0, CHR 0xE1, CHR 0xE2, CHR 0xE3, CHR 0xE4, CHR 0xE5, CHR 0xE6, CHR 0xE7,
      CHR 0xE8, CHR 0xE9, CHR 0xEA, CHR 0xEB, CHR 0xEC, CHR 0xED, CHR 0xEE, CHR 0xEF,
      CHR 0xF0, CHR 0xF1, CHR 0xF2, CHR 0xF3, CHR 0xF4, CHR 0xF5, CHR 0xF6,
      CHR 0xF8, CHR 0xF9, CHR 0xFA, CHR 0xFB, CHR 0xFC, CHR 0xFD, CHR 0xFE]"

definition upperLetters :: string where
  "upperLetters = ''ABCDEFGHIJKLMNOPQRSTUVWXYZ'' @
     [CHR 0xC0, CHR 0xC1, CHR 0xC2, CHR 0xC3, CHR 0xC4, CHR 0xC5, CHR 0xC6, CHR 0xC7,
      CHR 0xC8, CHR 0xC9, CHR 0xCA, CHR 0xCB, CHR 0xCC, CHR 0xCD, CHR 0xCE, CHR 0xCF,
      CHR 0xD0, CHR 0xD1, CHR 0xD2, CHR 0xD3, CHR 0xD4, CHR 0xD5, CHR 0xD6,
      CHR 0xD8, CHR 0xD9, CHR 0xDA, CHR 0xDB, CHR 0xDC, CHR 0xDD, CHR 0xDE]"

definition canonicalize :: "char \<Rightarrow> char" where
  "canonicalize c = (case map_of (zip lowerLetters upperLetters) c of Some u \<Rightarrow> u | None \<Rightarrow> c)"

definition toLowerChar :: "char \<Rightarrow> char" where
  "toLowerChar c = (case map_of (zip upperLetters lowerLetters) c of Some l \<Rightarrow> l | None \<Rightarrow> c)"

definition toLowerCase :: "string \<Rightarrow> string" where
  "toLowerCase s = map toLowerChar s"

definition trim :: "string \<Rightarrow> string" where
  "trim s = rev (dropWhile isWhiteSpace (rev (dropWhile isWhiteSpace s)))"

fun startsWith :: "string \<Rightarrow> string \<Rightarrow> bool" where
  "startsWith s [] = True"
| "startsWith [] (c # cs) = False"
| "startsWith (d # ds) (c # cs) = (d = c \<and> startsWith ds cs)"

fun indexOf :: "string \<Rightarrow> string \<Rightarrow> nat option" where
  "indexOf [] t = (if t = [] then Some 0 else None)"
| "indexOf (c # s) t = (if startsWith (c # s) t then Some 0 else map_option Suc (indexOf s t))"

definition includes_str :: "string \<Rightarrow> string \<Rightarrow> bool" where
  "includes_str s t \<longleftrightarrow> indexOf s t \<noteq> None"

fun splitNL :: "string \<Rightarrow> string \<Rightarrow> string list" where
  "splitNL cur [] = [rev cur]"
| "splitNL cur (c # s) = (if c = CHR 0x0A then rev cur # splitNL [] s else splitNL (c # cur) s)"

definition split_lines :: "string \<Rightarrow> string list" where
  "split_lines s = splitNL [] s"

fun join_lines :: "string list \<Rightarrow> string" where
  "join_lines [] = []"
| "join_lines [l] = l"
| "join_lines (l # m # ls) = l @ CHR 0x0A # join_lines (m # ls)"

definition slice :: "'a list \<Rightarrow> int \<Rightarrow> int \<Rightarrow> 'a list" where
  "slice xs a b =
     (let n = int (length xs);
          from = (if a < 0 then max (n + a) 0 else min a n);
          to = (if b < 0 then max (n + b) 0 else min b n)
      in take (nat (to - from)) (drop (nat from) xs))"

section \<open>Regular expressions\<close>

text \<open>
  The regular expressions of the sources are sequences of literals, greedily quantified
  single-character atoms, capturing groups, disjunctions and the assertions \<open>^\<close> and \<open>$\<close>.
  A single-character atom is \<open>.\<close>, \<open>\s\<close>, a character, or a class \<open>[...]\<close> or
  \<open>[^...]\<close> of characters and \<open>\s\<close>.
  \<open>ms\<close> lists the ways a sequence matches at a position, in the priority order of a
  backtracking matcher; \<open>search\<close> takes the first way at the leftmost position that has one.
  A position is the character before it (if any) and the rest of the input.
\<close>

datatype cls = CDot | CSpace | CChar char | CSet bool "cls list"

datatype rx =
    Lit string
  | Rep cls nat "nat option"
  | Grp nat "rx list"
  | Alt "rx list list"
  | Bol
  | Eol

record flags =
  ignoreCase :: bool
  multiline :: bool

type_synonym pos = "char option \<times> string"
type_synonym captures = "(nat \<times> string) list"

fun litMatch :: "bool \<Rightarrow> string \<Rightarrow> string \<Rightarrow> bool" where
  "litMatch ic [] s = True"
| "litMatch ic (c # cs) [] = False"
| "litMatch ic (c # cs) (d # ds) =
     ((if ic then canonicalize c = canonicalize d else c = d) \<and> litMatch ic cs ds)"

fun clsMatch :: "bool \<Rightarrow> cls \<Rightarrow> char \<Rightarrow> bool" where
  "clsMatch ic CDot c = (\<not> isLineTerminator c)"
| "clsMatch ic CSpace c = isWhiteSpace c"
| "clsMatch ic (CChar a) c = (if ic then canonicalize a = canonicalize c else a = c)"
| "clsMatch ic (CSet negated items) c = (negated \<noteq> list_ex (\<lambda>item. clsMatch ic item c) items)"

fun consume :: "nat \<Rightarrow> pos \<Rightarrow> pos" where
  "consume 0 ps = ps"
| "consume (Suc n) (p, []) = (p, [])"
| "consume (Suc n) (p, c # s) = consume n (Some c, s)"

definition atBol :: "flags \<Rightarrow> pos \<Rightarrow> bool" where
  "atBol f ps = (case fst ps of None \<Rightarrow> True | Some c \<Rightarrow> multiline f \<and> isLineTerminator c)"

definition atEol :: "flags \<Rightarrow> pos \<Rightarrow> bool" where
  "atEol f ps = (case snd ps of [] \<Rightarrow> True | c # s \<Rightarrow> multiline f \<and> isLineTerminator c)"

fun ms1 :: "flags \<Rightarrow> rx \<Rightarrow> pos \<times> captures \<Rightarrow> (pos \<times> captures) list"
and ms :: "flags \<Rightarrow> rx list \<Rightarrow> pos \<times> captures \<Rightarrow> (pos \<times> captures) list" where
  "ms1 f (Lit l) (ps, cs) = (if litMatch (ignoreCase f) l (snd ps) then [(consume (length l) ps, cs)] else [])"
| "ms1 f (Rep a mn mx) (ps, cs) =
     (let avail = length (takeWhile (clsMatch (ignoreCase f) a) (snd ps));
          hi = (case mx of None \<Rightarrow> avail | Some m \<Rightarrow> min m avail)
      in map (\<lambda>k. (consume k ps, cs)) (rev [mn ..< Suc hi]))"
| "ms1 f (Grp k body) (ps, cs) =
     map (\<lambda>(ps', cs'). (ps', (k, take (length (snd ps) - length (snd ps')) (snd ps)) # cs'))
         (ms f body (ps, cs))"
| "ms1 f (Alt alts) st = concat (map (\<lambda>a. ms f a st) alts)"
| "ms1 f Bol (ps, cs) = (if atBol f ps then [(ps, cs)] else [])"
| "ms1 f Eol (ps, cs) = (if atEol f ps then [(ps, cs)] else [])"
| "ms f [] st = [st]"
| "ms f (r # rs) st = concat (map (ms f rs) (ms1 f r st))"

datatype rmatch = RMatch (m_index: nat) (m_text: string) (m_groups: captures) (m_after: pos)

definition group :: "rmatch \<Rightarrow> nat \<Rightarrow> string" where
  "group m k = (case map_of (m_groups m) k of Some g \<Rightarrow> g | None \<Rightarrow> [])"

fun search :: "flags \<Rightarrow> rx list \<Rightarrow> nat \<Rightarrow> char option \<Rightarrow> string \<Rightarrow> rmatch option" where
  "search f r i p [] =
     (case ms f r ((p, []), []) of [] \<Rightarrow> None
      | (ps', cs) # _ \<Rightarrow> Some (RMatch i [] cs ps'))"
| "search f r i p (c # s) =
     (case ms f r ((p, c # s), []) of
        [] \<Rightarrow> search f r (Suc i) (Some c) s
      | (ps', cs) # _ \<Rightarrow> Some (RMatch i (take (length (c # s) - length (snd ps')) (c # s)) cs ps'))"

definition rx_match :: "flags \<Rightarrow> rx list \<Rightarrow> string \<Rightarrow> rmatch option" where
  "rx_match f r s = search f r 0 None s"

definition rx_test :: "flags \<Rightarrow> rx list \<Rightarrow> string \<Rightarrow> bool" where
  "rx_test f r s \<longleftrightarrow> rx_match f r s \<noteq> None"

function execLoop :: "flags \<Rightarrow> rx list \<Rightarrow> char option \<Rightarrow> string \<Rightarrow> rmatch list option" where
  "execLoop f r p s =
     (case search f r 0 p s of
        None \<Rightarrow> Some []
      | Some m \<Rightarrow>
          if length (snd (m_after m)) < length s
          then map_option ((#) m) (execLoop f r (fst (m_after m)) (snd (m_after m)))
          else None)"
  by pat_completeness auto
termination
  by (relation "measure (\<lambda>(f, r, p, s). length s)") (auto simp: case_prod_beta)

section \<open>Sections of a document (asdlcHelpers.ts, asdlcParsing.ts)\<close>

definition noFlags :: flags where "noFlags = \<lparr>ignoreCase = False, multiline = False\<rparr>"

text \<open>The pattern \<open>/^(#{1,6})\s+(.+)$/\<close>.\<close>

definition headingRx :: "rx list" where
  "headingRx = [Bol, Grp 1 [Rep (CChar CHR ''#'') 1 (Some 6)], Rep CSpace 1 None,
                Grp 2 [Rep CDot 1 None], Eol]"

record SimpleSection =
  level :: nat
  title :: string
  startLine :: int
  endLine :: int

fun parseSections_loop :: "int \<Rightarrow> int \<Rightarrow> string list \<Rightarrow> SimpleSection option \<Rightarrow> SimpleSection list \<Rightarrow> SimpleSection list" where
  "parseSections_loop n i [] currentSection sections =
     (case currentSection of None \<Rightarrow> sections | Some c \<Rightarrow> sections @ [c])"
| "parseSections_loop n i (line # ls) currentSection sections =
     (case rx_match noFlags headingRx line of
        None \<Rightarrow> parseSections_loop n (i + 1) ls currentSection sections
      | Some headingMatch \<Rightarrow>
          parseSections_loop n (i + 1) ls
            (Some \<lparr>level = length (group headingMatch 1), title = trim (group headingMatch 2),
                   startLine = i, endLine = n - 1\<rparr>)
            (case currentSection of None \<Rightarrow> sections
             | Some c \<Rightarrow> sections @ [c\<lparr>endLine := i - 1\<rparr>]))"

definition parseSections :: "string list \<Rightarrow> SimpleSection list" where
  "parseSections lines = parseSections_loop (int (length lines)) 0 lines None []"

definition isHeading :: "string \<Rightarrow> bool" where
  "isHeading line \<longleftrightarrow> rx_match noFlags headingRx line \<noteq> None"

definition covers :: "SimpleSection \<Rightarrow> int \<Rightarrow> bool" where
  "covers s j \<longleftrightarrow> startLine s \<le> j \<and> j \<le> endLine s"

definition covered :: "SimpleSection list \<Rightarrow> int \<Rightarrow> bool" where
  "covered ss j \<longleftrightarrow> list_ex (\<lambda>s. covers s j) ss"

fun chained :: "int \<Rightarrow> SimpleSection list \<Rightarrow> bool" where
  "chained n [] = True"
| "chained n [s] = (startLine s \<le> endLine s \<and> endLine s = n - 1)"
| "chained n (s # t # r) = (startLine s \<le> endLine s \<and> endLine s = startLine t - 1 \<and> chained n (t # r))"

definition headingLevel :: "string \<Rightarrow> nat" where
  "headingLevel line = length (group (the (rx_match noFlags headingRx line)) 1)"

definition headingTitle :: "string \<Rightarrow> string" where
  "headingTitle line = trim (group (the (rx_match noFlags headingRx line)) 2)"

definition headingLines :: "string list \<Rightarrow> (nat \<times> string) list" where
  "headingLines lines = filter (\<lambda>(i, l). isHeading l) (enumerate 0 lines)"

section \<open>JavaScript values, errors and try/catch\<close>

text \<open>
  A computation that may throw returns \<open>Inl\<close> of the error; \<open>tryCatch\<close> is a
  \<open>try { ... } catch { ... }\<close> block. Numbers are the rationals they denote, NaN and the
  two infinities. An absent property is \<open>JUndefined\<close>.
\<close>

datatype jserror = SyntaxError | TypeError | RangeError | FsError string

definition tryCatch :: "jserror + 'a \<Rightarrow> (jserror \<Rightarrow> jserror + 'a) \<Rightarrow> jserror + 'a" where
  "tryCatch block handler = (case block of Inl e \<Rightarrow> handler e | Inr v \<Rightarrow> Inr v)"

definition bindE :: "jserror + 'a \<Rightarrow> ('a \<Rightarrow> jserror + 'b) \<Rightarrow> jserror + 'b" where
  "bindE m k = (case m of Inl e \<Rightarrow> Inl e | Inr v \<Rightarrow> k v)"

datatype jsnum = NaN | PosInfinity | NegInfinity | Finite rat

datatype jsval =
    JUndefined
  | JNull
  | JBool bool
  | JNum jsnum
  | JStr string
  | JArr "jsval list"
  | JObj "(string \<times> jsval) list"

fun truthy :: "jsval \<Rightarrow> bool" where
  "truthy JUndefined = False"
| "truthy JNull = False"
| "truthy (JBool b) = b"
| "truthy (JNum x) = (x \<noteq> NaN \<and> x \<noteq> Finite 0)"
| "truthy (JStr s) = (s \<noteq> [])"
| "truthy (JArr xs) = True"
| "truthy (JObj kvs) = True"

text \<open>The operators \<open>a || b\<close> and the test of \<open>a ?? b\<close>.\<close>

definition jsOr :: "jsval \<Rightarrow> jsval \<Rightarrow> jsval" where
  "jsOr a b = (if truthy a then a else b)"

definition nullish :: "jsval \<Rightarrow> bool" where
  "nullish v \<longleftrightarrow> v = JUndefined \<or> v = JNull"

text \<open>
  Property read \<open>v.k\<close>, for a property name \<open>k\<close> that no built-in prototype defines (the
  sources read description, globs, alwaysApply, title, overview, prerequisites, steps,
  tools, guidance, $id and id): a TypeError on undefined and null, the own property of an
  object, undefined on everything else.
\<close>

fun getProp :: "jsval \<Rightarrow> string \<Rightarrow> jserror + jsval" where
  "getProp JUndefined k = Inl TypeError"
| "getProp JNull k = Inl TypeError"
| "getProp (JObj kvs) k = Inr (case map_of kvs k of Some v \<Rightarrow> v | None \<Rightarrow> JUndefined)"
| "getProp v k = Inr JUndefined"




definition fieldOr :: "(string \<times> jsval) list \<Rightarrow> string \<Rightarrow> jsval \<Rightarrow> jsval" where
  "fieldOr kvs k d = (case map_of kvs k of Some v \<Rightarrow> (if truthy v then v else d) | None \<Rightarrow> d)"

section \<open>Rule parsing (ruleParsing.ts)\<close>

text \<open>
  The frontmatter extractor \<open>matter\<close> is the gray-matter library: a parameter. It throws or
  returns the parsed data and the remaining text.
\<close>

record GrayMatterFile =
  gm_data :: jsval
  gm_content :: string

record CoreRuleMetadata =
  description :: jsval
  globs :: jsval
  alwaysApply :: jsval

record ParsedRule =
  metadata :: CoreRuleMetadata
  body :: string

definition parseRuleFromString :: "(string \<Rightarrow> jserror + GrayMatterFile) \<Rightarrow> string \<Rightarrow> jserror + ParsedRule" where
  "parseRuleFromString matter text =
     tryCatch
       (bindE (matter text) (\<lambda>parsed.
        bindE (getProp (gm_data parsed) ''description'') (\<lambda>d.
        bindE (getProp (gm_data parsed) ''globs'') (\<lambda>g.
        bindE (getProp (gm_data parsed) ''alwaysApply'') (\<lambda>a.
        Inr \<lparr>metadata = \<lparr>description = jsOr d (JStr ''No description''),
                           globs = jsOr g (JArr []),
                           alwaysApply = jsOr a (JBool False)\<rparr>,
             body = trim (gm_content parsed)\<rparr>)))))
       (\<lambda>e. Inr \<lparr>metadata = \<lparr>description = JStr ''Error parsing file'',
                                 globs = JUndefined, alwaysApply = JUndefined\<rparr>,
                   body = ''Error reading file content''\<rparr>)"

section \<open>Skill parsing (skillParsing.ts)\<close>


definition mFlags :: flags where "mFlags = \<lparr>ignoreCase = False, multiline = True\<rparr>"





section \<open>Schema identifiers (asdlcHelpers.ts)\<close>

text \<open>\<open>JSON.parse\<close> is a parameter: it throws or returns the parsed value.\<close>

definition extractSchemaId :: "(string \<Rightarrow> jserror + jsval) \<Rightarrow> string \<Rightarrow> jserror + jsval" where
  "extractSchemaId JSON_parse text =
     tryCatch
       (bindE (JSON_parse text) (\<lambda>json.
        bindE (getProp json ''$id'') (\<lambda>a.
        if nullish a then getProp json ''id'' else Inr a)))
       (\<lambda>e. Inr JUndefined)"

section \<open>JSON.parse\<close>

text \<open>
  A model of \<open>JSON.parse\<close> on texts of 8-bit code units, after the JSON grammar
  (ECMA-404): \<open>Some (Inr v)\<close> for a JSON text, \<open>Some (Inl SyntaxError)\<close> for a text
  that is none, and \<open>None\<close> where the model does not say: a \<open>\u\<close> escape above
  \<open>00FF\<close>, and a number that \<open>JSON.parse\<close> may round or overflow. A number is modelled
  when it denotes an integer of magnitude at most \<open>2^53\<close> other than \<open>-0\<close>: such a value is a
  double, and \<open>JSON.parse\<close> returns it exactly. A duplicate key keeps the last value.
\<close>

datatype 'a presult = Parsed 'a string | Invalid | Unmodelled

definition isJsonWhiteSpace :: "char \<Rightarrow> bool" where
  "isJsonWhiteSpace c \<longleftrightarrow> c = CHR 0x09 \<or> c = CHR 0x0A \<or> c = CHR 0x0D \<or> c = CHR 0x20"

definition skipWs :: "string \<Rightarrow> string" where
  "skipWs s = dropWhile isJsonWhiteSpace s"

definition digitVal :: "char \<Rightarrow> nat option" where
  "digitVal c = map_of (zip ''0123456789'' [0 ..< 10]) c"

definition hexVal :: "char \<Rightarrow> nat option" where
  "hexVal c = map_of (zip ''0123456789abcdefABCDEF'' ([0 ..< 16] @ [10 ..< 16])) c"

definition escapeChar :: "char \<Rightarrow> char option" where
  "escapeChar c = map_of [(CHR 0x22, CHR 0x22), (CHR 0x5C, CHR 0x5C), (CHR ''/'', CHR ''/''),
     (CHR ''b'', CHR 0x08), (CHR ''f'', CHR 0x0C), (CHR ''n'', CHR 0x0A),
     (CHR ''r'', CHR 0x0D), (CHR ''t'', CHR 0x09)] c"

fun parseJsonString :: "string \<Rightarrow> string \<Rightarrow> string presult" where
  "parseJsonString [] acc = Invalid"
| "parseJsonString (c # s) acc =
     (if c = CHR 0x22 then Parsed (rev acc) s
      else if c = CHR 0x5C then
        (case s of
           [] \<Rightarrow> Invalid
         | e # s' \<Rightarrow>
             if e = CHR ''u'' then
               (case s' of
                  h1 # h2 # h3 # h4 # s'' \<Rightarrow>
                    (case (hexVal h1, hexVal h2, hexVal h3, hexVal h4) of
                       (Some a, Some b, Some c, Some d) \<Rightarrow>
                         if a = 0 \<and> b = 0 then parseJsonString s'' (char_of (16 * c + d) # acc)
                         else Unmodelled
                     | _ \<Rightarrow> Invalid)
                | _ \<Rightarrow> Invalid)
             else
               (case escapeChar e of
                  Some r \<Rightarrow> parseJsonString s' (r # acc)
                | None \<Rightarrow> Invalid))
      else if (of_char c :: nat) < 32 then Invalid
      else parseJsonString s (c # acc))"

definition digitsValue :: "string \<Rightarrow> nat" where
  "digitsValue ds = foldl (\<lambda>n c. 10 * n + the (digitVal c)) 0 ds"

definition isDigit :: "char \<Rightarrow> bool" where
  "isDigit c \<longleftrightarrow> digitVal c \<noteq> None"

definition parseJsonNumber :: "string \<Rightarrow> jsval presult" where
  "parseJsonNumber s =
     (let neg = (s \<noteq> [] \<and> hd s = CHR ''-'');
          s1 = (if neg then tl s else s);
          ip = (if s1 \<noteq> [] \<and> hd s1 = CHR ''0'' then ''0'' else takeWhile isDigit s1);
          s2 = drop (length ip) s1;
          hasFrac = (s2 \<noteq> [] \<and> hd s2 = CHR ''.'');
          fp = (if hasFrac then takeWhile isDigit (tl s2) else []);
          s3 = (if hasFrac then drop (length fp) (tl s2) else s2);
          hasExp = (s3 \<noteq> [] \<and> (hd s3 = CHR ''e'' \<or> hd s3 = CHR ''E''));
          s4 = (if hasExp then tl s3 else s3);
          eneg = (hasExp \<and> s4 \<noteq> [] \<and> hd s4 = CHR ''-'');
          s5 = (if hasExp \<and> s4 \<noteq> [] \<and> (hd s4 = CHR ''-'' \<or> hd s4 = CHR ''+'') then tl s4 else s4);
          ep = (if hasExp then takeWhile isDigit s5 else []);
          s6 = drop (length ep) s5;
          mant = (of_nat (digitsValue (ip @ fp)) :: rat) / 10 ^ length fp;
          scaled = (if eneg then mant / 10 ^ digitsValue ep else mant * 10 ^ digitsValue ep)
      in if ip = [] \<or> (hasFrac \<and> fp = []) \<or> (hasExp \<and> ep = []) then Invalid
         else if of_int \<lfloor>scaled\<rfloor> \<noteq> scaled \<or> 2 ^ 53 < scaled \<or> (neg \<and> scaled = 0) then Unmodelled
         else Parsed (JNum (Finite (if neg then - scaled else scaled))) s6)"

definition objSet :: "(string \<times> jsval) list \<Rightarrow> string \<Rightarrow> jsval \<Rightarrow> (string \<times> jsval) list" where
  "objSet kvs k v =
     (if map_of kvs k = None then kvs @ [(k, v)]
      else map (\<lambda>(k', v'). if k' = k then (k', v) else (k', v')) kvs)"

fun parseJsonValue :: "nat \<Rightarrow> string \<Rightarrow> jsval presult"
and parseJsonElements :: "nat \<Rightarrow> string \<Rightarrow> jsval list \<Rightarrow> jsval presult"
and parseJsonMembers :: "nat \<Rightarrow> string \<Rightarrow> (string \<times> jsval) list \<Rightarrow> jsval presult" where
  "parseJsonValue 0 s = Unmodelled"
| "parseJsonValue (Suc n) s =
     (case skipWs s of
        [] \<Rightarrow> Invalid
      | c # r \<Rightarrow>
          if c = CHR ''{'' then
            (case skipWs r of
               [] \<Rightarrow> Invalid
             | d # r' \<Rightarrow> if d = CHR ''}'' then Parsed (JObj []) r' else parseJsonMembers n (d # r') [])
          else if c = CHR ''['' then
            (case skipWs r of
               [] \<Rightarrow> Invalid
             | d # r' \<Rightarrow> if d = CHR '']'' then Parsed (JArr []) r' else parseJsonElements n (d # r') [])
          else if c = CHR 0x22 then
            (case parseJsonString r [] of
               Parsed str r' \<Rightarrow> Parsed (JStr str) r'
             | Invalid \<Rightarrow> Invalid
             | Unmodelled \<Rightarrow> Unmodelled)
          else if startsWith (c # r) ''true'' then Parsed (JBool True) (drop 4 (c # r))
          else if startsWith (c # r) ''false'' then Parsed (JBool False) (drop 5 (c # r))
          else if startsWith (c # r) ''null'' then Parsed JNull (drop 4 (c # r))
          else parseJsonNumber (c # r))"
| "parseJsonElements 0 s acc = Unmodelled"
| "parseJsonElements (Suc n) s acc =
     (case parseJsonValue n s of
        Parsed v r \<Rightarrow>
          (case skipWs r of
             [] \<Rightarrow> Invalid
           | d # r' \<Rightarrow>
               if d = CHR '','' then parseJsonElements n r' (acc @ [v])
               else if d = CHR '']'' then Parsed (JArr (acc @ [v])) r'
               else Invalid)
      | Invalid \<Rightarrow> Invalid
      | Unmodelled \<Rightarrow> Unmodelled)"
| "parseJsonMembers 0 s acc = Unmodelled"
| "parseJsonMembers (Suc n) s acc =
     (case skipWs s of
        [] \<Rightarrow> Invalid
      | q # r \<Rightarrow>
          if q \<noteq> CHR 0x22 then Invalid
          else
            (case parseJsonString r [] of
               Parsed k r1 \<Rightarrow>
                 (case skipWs r1 of
                    [] \<Rightarrow> Invalid
                  | c # r2 \<Rightarrow>
                      if c \<noteq> CHR '':'' then Invalid
                      else
                        (case parseJsonValue n r2 of
                           Parsed v r3 \<Rightarrow>
                             (case skipWs r3 of
                                [] \<Rightarrow> Invalid
                              | d # r4 \<Rightarrow>
                                  if d = CHR '','' then parseJsonMembers n r4 (objSet acc k v)
                                  else if d = CHR ''}'' then Parsed (JObj (objSet acc k v)) r4
                                  else Invalid)
                         | Invalid \<Rightarrow> Invalid
                         | Unmodelled \<Rightarrow> Unmodelled))
             | Invalid \<Rightarrow> Invalid
             | Unmodelled \<Rightarrow> Unmodelled))"

definition json_parse :: "string \<Rightarrow> (jserror + jsval) option" where
  "json_parse text =
     (case parseJsonValue (2 * length text + 2) text of
        Parsed v r \<Rightarrow> if skipWs r = [] then Some (Inr v) else Some (Inl SyntaxError)
      | Invalid \<Rightarrow> Some (Inl SyntaxError)
      | Unmodelled \<Rightarrow> None)"

definition sampleJsonParse :: "string \<Rightarrow> jserror + jsval" where
  "sampleJsonParse text = (case json_parse text of Some r \<Rightarrow> r | None \<Rightarrow> Inl SyntaxError)"

section \<open>The RegExp constructor\<close>

text \<open>
  A model of \<open>new RegExp(pattern)\<close> for the patterns the engine above covers: \<open>Some (Inr r)\<close>
  is the compiled pattern, \<open>Some (Inl SyntaxError)\<close> a pattern that the constructor rejects
  (a quantifier with nothing to repeat, an unmatched parenthesis, an unterminated class, a
  backslash at the end), and \<open>None\<close> a pattern outside this model (a quantified group, a
  lazy or braced quantifier, a class range, a group starting with \<open>(?\<close>, the other
  escapes). Capturing groups are numbered from 1 in the order of their opening parenthesis.
\<close>

abbreviation (input) BACKSLASH :: char where "BACKSLASH \<equiv> CHR 0x5C"

datatype 'a cres = COk 'a | CErr | CUnmodelled

definition isQuantifierChar :: "char \<Rightarrow> bool" where
  "isQuantifierChar c \<longleftrightarrow> c = CHR ''*'' \<or> c = CHR ''+'' \<or> c = CHR ''?''"

definition escapeAtom :: "char \<Rightarrow> cls option" where
  "escapeAtom e =
     (if e = CHR ''s'' then Some CSpace
      else if e = CHR ''n'' then Some (CChar (CHR 0x0A))
      else if e = CHR ''r'' then Some (CChar (CHR 0x0D))
      else if e = CHR ''t'' then Some (CChar (CHR 0x09))
      else if e = CHR ''v'' then Some (CChar (CHR 0x0B))
      else if e = CHR ''f'' then Some (CChar (CHR 0x0C))
      else if List.member ''dDSwWbBcxuk0123456789'' e then None
      else Some (CChar e))"

fun parseClassItems :: "string \<Rightarrow> cls list \<Rightarrow> (cls list \<times> string) cres" where
  "parseClassItems [] acc = CErr"
| "parseClassItems (c # s) acc =
     (if c = CHR '']'' then COk (acc, s)
      else if c = BACKSLASH then
        (case s of
           [] \<Rightarrow> CErr
         | e # s' \<Rightarrow>
             (case escapeAtom e of
                None \<Rightarrow> CUnmodelled
              | Some a \<Rightarrow> parseClassItems s' (acc @ [a])))
      else if c = CHR ''-'' \<and> acc \<noteq> [] \<and> s \<noteq> [] \<and> hd s \<noteq> CHR '']'' then CUnmodelled
      else parseClassItems s (acc @ [CChar c]))"

text \<open>A single-character atom at the head of the pattern.\<close>

definition parseAtom :: "char \<Rightarrow> string \<Rightarrow> (cls \<times> string) cres" where
  "parseAtom c s =
     (if c = CHR ''.'' then COk (CDot, s)
      else if c = BACKSLASH then
        (case s of
           [] \<Rightarrow> CErr
         | e # s' \<Rightarrow> (case escapeAtom e of None \<Rightarrow> CUnmodelled | Some a \<Rightarrow> COk (a, s')))
      else if c = CHR ''['' then
        (case parseClassItems (if s \<noteq> [] \<and> hd s = CHR ''^'' then tl s else s) [] of
           COk (items, rest) \<Rightarrow> COk (CSet (s \<noteq> [] \<and> hd s = CHR ''^'') items, rest)
         | CErr \<Rightarrow> CErr
         | CUnmodelled \<Rightarrow> CUnmodelled)
      else COk (CChar c, s))"

definition unquantified :: "cls \<Rightarrow> rx" where
  "unquantified a = (case a of CChar c \<Rightarrow> Lit [c] | _ \<Rightarrow> Rep a 1 (Some 1))"

text \<open>The atom with the quantifier that follows it, if any.\<close>

definition quantify :: "cls \<Rightarrow> string \<Rightarrow> (rx \<times> string) cres" where
  "quantify a s =
     (case s of
        [] \<Rightarrow> COk (unquantified a, [])
      | q # s' \<Rightarrow>
          if isQuantifierChar q then
            (if s' \<noteq> [] \<and> hd s' = CHR ''?'' then CUnmodelled
             else if q = CHR ''*'' then COk (Rep a 0 None, s')
             else if q = CHR ''+'' then COk (Rep a 1 None, s')
             else COk (Rep a 0 (Some 1), s'))
          else if q = CHR ''{'' then CUnmodelled
          else COk (unquantified a, s))"

text \<open>
  What stands at the head of an alternative: its end, an error, something outside the
  model, an assertion or a quantified atom with the rest of the pattern, or an opening
  parenthesis with the rest of the pattern.
\<close>

datatype step = Stop | Fail | Unknown | Emit rx string | Open_group string

definition classify :: "char \<Rightarrow> string \<Rightarrow> step" where
  "classify c s =
     (if c = CHR ''|'' \<or> c = CHR '')'' then Stop
      else if isQuantifierChar c then Fail
      else if c = CHR ''{'' \<or> c = CHR ''}'' \<or> c = CHR '']'' then Unknown
      else if c = CHR ''^'' \<or> c = CHR ''$'' then
        (if s \<noteq> [] \<and> isQuantifierChar (hd s) then Fail
         else if s \<noteq> [] \<and> hd s = CHR ''{'' then Unknown
         else Emit (if c = CHR ''^'' then Bol else Eol) s)
      else if c = CHR ''('' then
        (if s \<noteq> [] \<and> hd s = CHR ''?'' then Unknown else Open_group s)
      else
        (case parseAtom c s of
           COk (a, rest) \<Rightarrow>
             (case quantify a rest of
                COk (item, rest') \<Rightarrow> Emit item rest'
              | CErr \<Rightarrow> Fail
              | CUnmodelled \<Rightarrow> Unknown)
         | CErr \<Rightarrow> Fail
         | CUnmodelled \<Rightarrow> Unknown))"

text \<open>
  The group numbered \<open>g\<close> from the disjunction read after its opening parenthesis: the
  closing parenthesis must follow, and no quantifier after it.
\<close>

definition closeGroup :: "nat \<Rightarrow> (rx list list \<times> nat \<times> string) cres \<Rightarrow> (rx \<times> nat \<times> string) cres" where
  "closeGroup g r =
     (case r of
        COk (alts, n', rest) \<Rightarrow>
          (case rest of
             [] \<Rightarrow> CErr
           | d # rest' \<Rightarrow>
               if rest' \<noteq> [] \<and> (isQuantifierChar (hd rest') \<or> hd rest' = CHR ''{'')
               then CUnmodelled
               else COk (Grp g (case alts of [a] \<Rightarrow> a | _ \<Rightarrow> [Alt alts]), n', rest'))
      | CErr \<Rightarrow> CErr
      | CUnmodelled \<Rightarrow> CUnmodelled)"

text \<open>
  A disjunction and an alternative, up to a closing parenthesis or the end of the pattern.
  The first argument bounds the number of steps, the second is the number of groups opened
  so far.
\<close>

fun parseDisjunction :: "nat \<Rightarrow> nat \<Rightarrow> string \<Rightarrow> rx list list \<Rightarrow> (rx list list \<times> nat \<times> string) cres"
and parseAlternative :: "nat \<Rightarrow> nat \<Rightarrow> string \<Rightarrow> rx list \<Rightarrow> (rx list \<times> nat \<times> string) cres" where
  "parseDisjunction 0 n s alts = CUnmodelled"
| "parseDisjunction (Suc k) n s alts =
     (case parseAlternative k n s [] of
        COk r \<Rightarrow>
          if snd (snd r) \<noteq> [] \<and> hd (snd (snd r)) = CHR ''|''
          then parseDisjunction k (fst (snd r)) (tl (snd (snd r))) (alts @ [fst r])
          else COk (alts @ [fst r], fst (snd r), snd (snd r))
      | CErr \<Rightarrow> CErr
      | CUnmodelled \<Rightarrow> CUnmodelled)"
| "parseAlternative 0 n s acc = CUnmodelled"
| "parseAlternative (Suc k) n [] acc = COk (acc, n, [])"
| "parseAlternative (Suc k) n (c # s) acc =
     (case classify c s of
        Stop \<Rightarrow> COk (acc, n, c # s)
      | Fail \<Rightarrow> CErr
      | Unknown \<Rightarrow> CUnmodelled
      | Emit item rest \<Rightarrow> parseAlternative k n rest (acc @ [item])
      | Open_group rest \<Rightarrow>
          (case closeGroup (Suc n) (parseDisjunction k (Suc n) rest []) of
             COk g \<Rightarrow> parseAlternative k (fst (snd g)) (snd (snd g)) (acc @ [fst g])
           | CErr \<Rightarrow> CErr
           | CUnmodelled \<Rightarrow> CUnmodelled))"

definition rx_compile :: "string \<Rightarrow> (jserror + rx list) option" where
  "rx_compile pattern =
     (case parseDisjunction (2 * length pattern + 2) 0 pattern [] of
        COk (alts, n, rest) \<Rightarrow>
          if rest = [] then Some (Inr (case alts of [a] \<Rightarrow> a | _ \<Rightarrow> [Alt alts]))
          else Some (Inl SyntaxError)
      | CErr \<Rightarrow> Some (Inl SyntaxError)
      | CUnmodelled \<Rightarrow> None)"

text \<open>
  What a function of the sources does: it returns, it throws, it runs forever, or the
  model does not say.
\<close>

datatype 'a outcome = Returns 'a | Throws jserror | Diverges | Unmodelled

definition newRegExp :: "string \<Rightarrow> (rx list) outcome" where
  "newRegExp pattern =
     (case rx_compile pattern of
        None \<Rightarrow> Unmodelled
      | Some (Inl e) \<Rightarrow> Throws e
      | Some (Inr r) \<Rightarrow> Returns r)"

definition bindO :: "'a outcome \<Rightarrow> ('a \<Rightarrow> 'b outcome) \<Rightarrow> 'b outcome" where
  "bindO m k = (case m of Returns v \<Rightarrow> k v | Throws e \<Rightarrow> Throws e | Diverges \<Rightarrow> Diverges
                | Unmodelled \<Rightarrow> Unmodelled)"

text \<open>The loop \<open>while ((match = regex.exec(content)) !== null)\<close> of a global pattern.\<close>

definition execAll :: "flags \<Rightarrow> rx list \<Rightarrow> string \<Rightarrow> (rmatch list) outcome" where
  "execAll f r s = (case execLoop f r None s of None \<Rightarrow> Diverges | Some found \<Rightarrow> Returns found)"

definition js_indexOf :: "string \<Rightarrow> string \<Rightarrow> int" where
  "js_indexOf s t = (case indexOf s t of Some i \<Rightarrow> int i | None \<Rightarrow> - 1)"

section \<open>Parsing AGENTS.md (asdlcParsing.ts, asdlcHelpers.ts)\<close>

definition iFlags :: flags where "iFlags = \<lparr>ignoreCase = True, multiline = False\<rparr>"
definition miFlags :: flags where "miFlags = \<lparr>ignoreCase = True, multiline = True\<rparr>"

text \<open>The \<open>mi\<close> pattern \<open>^##\\s+${sectionName}\<close>.\<close>

definition hasSection :: "string \<Rightarrow> string \<Rightarrow> bool outcome" where
  "hasSection content sectionName =
     bindO (newRegExp (''^##'' @ [BACKSLASH] @ ''s+'' @ sectionName))
       (\<lambda>regex. Returns (rx_test miFlags regex content))"

text \<open>The patterns \<open>/>\s*\*\*Project Mission:\*\*\s*(.+)/\<close> and \<open>/>\s*\*\*Core Philosophy:\*\*\s*(.+)/\<close>.\<close>

definition missionRx :: "rx list" where
  "missionRx = [Lit ''>'', Rep CSpace 0 None, Lit ''**Project Mission:**'', Rep CSpace 0 None,
                Grp 1 [Rep CDot 1 None]]"

definition philosophyRx :: "rx list" where
  "philosophyRx = [Lit ''>'', Rep CSpace 0 None, Lit ''**Core Philosophy:**'', Rep CSpace 0 None,
                   Grp 1 [Rep CDot 1 None]]"

definition extractMission :: "string \<Rightarrow> string option" where
  "extractMission content =
     (case rx_match noFlags missionRx content of
        Some missionMatch \<Rightarrow> Some (trim (group missionMatch 1))
      | None \<Rightarrow> None)"

definition extractCorePhilosophy :: "string \<Rightarrow> string option" where
  "extractCorePhilosophy content =
     (case rx_match noFlags philosophyRx content of
        Some philosophyMatch \<Rightarrow> Some (trim (group philosophyMatch 1))
      | None \<Rightarrow> None)"

text \<open>The \<open>gmi\<close> pattern \<open>^\\s*-\\s*\\*\\*${keyword}[^*]*\\*\\*[:\\s]*(.+)$\<close>.\<close>

definition extractListItems :: "string \<Rightarrow> string \<Rightarrow> (string list) outcome" where
  "extractListItems content keyword =
     bindO (newRegExp (''^'' @ [BACKSLASH] @ ''s*-'' @ [BACKSLASH] @ ''s*'' @ [BACKSLASH] @ ''*''
                       @ [BACKSLASH] @ ''*'' @ keyword @ ''[^*]*'' @ [BACKSLASH] @ ''*''
                       @ [BACKSLASH] @ ''*[:'' @ [BACKSLASH] @ ''s]*(.+)$''))
       (\<lambda>regex. bindO (execAll miFlags regex content)
          (\<lambda>matches. Returns (map (\<lambda>m. trim (group m 1)) matches)))"

text \<open>The \<open>i\<close> pattern \<open>\\*\\*${keyword}[^*]*\\*\\*[:\\s]*([^\\n]+)\<close>.\<close>

definition extractSingleValue :: "string \<Rightarrow> string \<Rightarrow> (string option) outcome" where
  "extractSingleValue content keyword =
     bindO (newRegExp ([BACKSLASH] @ ''*'' @ [BACKSLASH] @ ''*'' @ keyword @ ''[^*]*''
                       @ [BACKSLASH] @ ''*'' @ [BACKSLASH] @ ''*[:'' @ [BACKSLASH] @ ''s]*([^''
                       @ [BACKSLASH] @ ''n]+)''))
       (\<lambda>regex. Returns (case rx_match iFlags regex content of
                            Some m \<Rightarrow> Some (trim (group m 1))
                          | None \<Rightarrow> None))"

text \<open>The patterns \<open>/^#{2,3}\s/m\<close> and \<open>/^\s*-\s*\*\*(ALWAYS|ASK|NEVER)\*\*\s*(.+)$/gm\<close>.\<close>

definition nextHeadingRx :: "rx list" where
  "nextHeadingRx = [Bol, Rep (CChar CHR ''#'') 2 (Some 3), Rep CSpace 1 (Some 1)]"

definition bulletRx :: "rx list" where
  "bulletRx = [Bol, Rep CSpace 0 None, Lit ''-'', Rep CSpace 0 None, Lit ''**'',
               Grp 1 [Alt [[Lit ''ALWAYS''], [Lit ''ASK''], [Lit ''NEVER'']]], Lit ''**'',
               Rep CSpace 0 None, Grp 2 [Rep CDot 1 None], Eol]"

text \<open>The \<open>i\<close> pattern \<open>###?\\s*${tierKeyword}[^\\n]*${tierName}[^\\n]*\<close>.\<close>

definition extractTierItems :: "string \<Rightarrow> string \<Rightarrow> string \<Rightarrow> (string list) outcome" where
  "extractTierItems content tierKeyword tierName =
     bindO (newRegExp (''###?'' @ [BACKSLASH] @ ''s*'' @ tierKeyword @ ''[^'' @ [BACKSLASH] @ ''n]*''
                       @ tierName @ ''[^'' @ [BACKSLASH] @ ''n]*''))
       (\<lambda>tierRegex.
          case rx_match iFlags tierRegex content of
            None \<Rightarrow> Returns []
          | Some tierMatch \<Rightarrow>
              (let startIndex = js_indexOf content (m_text tierMatch) + int (length (m_text tierMatch));
                   rest = slice content startIndex (int (length content));
                   endIndex = (case rx_match mFlags nextHeadingRx rest of
                                 Some nextHeadingMatch \<Rightarrow>
                                   startIndex + js_indexOf rest (m_text nextHeadingMatch)
                               | None \<Rightarrow> int (length content));
                   tierContent = slice content startIndex endIndex
               in bindO (execAll mFlags bulletRx tierContent)
                    (\<lambda>matches. Returns (map (\<lambda>m. trim (group m 2)) matches))))"

record TechStackInfo =
  languages :: "string list"
  frameworks :: "string list"
  buildTools :: "string list"
  testing :: "string list"
  packageManager :: "string option"

record OperationalBoundaries =
  tier1Always :: "string list"
  tier2Ask :: "string list"
  tier3Never :: "string list"

fun findIndex :: "('a \<Rightarrow> bool) \<Rightarrow> 'a list \<Rightarrow> nat option" where
  "findIndex P [] = None"
| "findIndex P (x # xs) = (if P x then Some 0 else map_option Suc (findIndex P xs))"

definition isTechStackTitle :: "SimpleSection \<Rightarrow> bool" where
  "isTechStackTitle s \<longleftrightarrow>
     includes_str (toLowerCase (title s)) ''tech stack'' \<or>
     includes_str (toLowerCase (title s)) ''technology''"

text \<open>
  The text of a section up to the line before the next level-2 section:
  \<open>lines.slice(section.startLine, endLine + 1).join('\n')\<close>.
\<close>

definition sectionContent :: "string \<Rightarrow> SimpleSection list \<Rightarrow> nat \<Rightarrow> string" where
  "sectionContent content sections idx =
     (let nextH2Section = find (\<lambda>s. level s = 2) (drop (idx + 1) sections);
          lines = split_lines content;
          endLine = (case nextH2Section of Some h \<Rightarrow> startLine h - 1 | None \<Rightarrow> int (length lines) - 1)
      in join_lines (slice lines (startLine (sections ! idx)) (endLine + 1)))"

definition extractTechStack :: "string \<Rightarrow> SimpleSection list \<Rightarrow> (TechStackInfo option) outcome" where
  "extractTechStack content sections =
     (case findIndex isTechStackTitle sections of
        None \<Rightarrow> Returns None
      | Some techStackIdx \<Rightarrow>
          bindO (extractListItems (sectionContent content sections techStackIdx) ''language'') (\<lambda>ls.
          bindO (extractListItems (sectionContent content sections techStackIdx) ''framework'') (\<lambda>fs.
          bindO (extractListItems (sectionContent content sections techStackIdx) ''build'') (\<lambda>bs.
          bindO (extractListItems (sectionContent content sections techStackIdx) ''testing'') (\<lambda>ts.
          bindO (extractSingleValue (sectionContent content sections techStackIdx) ''package manager'') (\<lambda>pm.
          Returns (Some \<lparr>languages = ls, frameworks = fs, buildTools = bs, testing = ts,
                          packageManager = pm\<rparr>)))))))"

definition isBoundariesTitle :: "SimpleSection \<Rightarrow> bool" where
  "isBoundariesTitle s \<longleftrightarrow> includes_str (toLowerCase (title s)) ''operational boundaries''"

definition extractOperationalBoundaries :: "string \<Rightarrow> SimpleSection list \<Rightarrow> (OperationalBoundaries option) outcome" where
  "extractOperationalBoundaries content sections =
     (case findIndex isBoundariesTitle sections of
        None \<Rightarrow> Returns None
      | Some boundariesIdx \<Rightarrow>
          bindO (extractTierItems (sectionContent content sections boundariesIdx) ''tier 1'' ''always'') (\<lambda>t1.
          bindO (extractTierItems (sectionContent content sections boundariesIdx) ''tier 2'' ''ask'') (\<lambda>t2.
          bindO (extractTierItems (sectionContent content sections boundariesIdx) ''tier 3'' ''never'') (\<lambda>t3.
          Returns (Some \<lparr>tier1Always = t1, tier2Ask = t2, tier3Never = t3\<rparr>)))))"

text \<open>
  The characters with a meaning in a pattern, and the pattern items of a text taken
  literally.
\<close>

definition isSyntaxChar :: "char \<Rightarrow> bool" where
  "isSyntaxChar c \<longleftrightarrow> List.member (''^$.*+?()[]{}|'' @ [BACKSLASH]) c"





definition tierDoc :: string where
  "tierDoc = ''### Tier 1 (ALWAYS)\<newline>- **ALWAYS** a\<newline>#### Note\<newline>- **ALWAYS** b\<newline>### Tier 2 (ASK)\<newline>- **ASK** c''"

text \<open>
  The position at offset \<open>k\<close> of a text, whether a pattern matches there, and the text
  of a group in the first way it matches there.
\<close>

definition posAt :: "string \<Rightarrow> nat \<Rightarrow> pos" where
  "posAt s k = (if k = 0 then None else Some (s ! (k - 1)), drop k s)"

definition matchesAt :: "flags \<Rightarrow> rx list \<Rightarrow> string \<Rightarrow> nat \<Rightarrow> bool" where
  "matchesAt f r s k \<longleftrightarrow> ms f r (posAt s k, []) \<noteq> []"

definition captureAt :: "flags \<Rightarrow> rx list \<Rightarrow> string \<Rightarrow> nat \<Rightarrow> nat \<Rightarrow> string" where
  "captureAt f r s k g =
     (case map_of (snd (hd (ms f r (posAt s k, [])))) g of Some t \<Rightarrow> t | None \<Rightarrow> [])"

text \<open>
  The title test of extractTechStack on a title, and the record that extractTechStack
  builds from the text of a span.
\<close>

definition isTechTitle :: "string \<Rightarrow> bool" where
  "isTechTitle t \<longleftrightarrow>
     includes_str (toLowerCase t) ''tech stack'' \<or> includes_str (toLowerCase t) ''technology''"

definition techStackOfSpan :: "string \<Rightarrow> (TechStackInfo option) outcome" where
  "techStackOfSpan sp =
     bindO (extractListItems sp ''language'') (\<lambda>ls.
     bindO (extractListItems sp ''framework'') (\<lambda>fs.
     bindO (extractListItems sp ''build'') (\<lambda>bs.
     bindO (extractListItems sp ''testing'') (\<lambda>ts.
     bindO (extractSingleValue sp ''package manager'') (\<lambda>pm.
     Returns (Some \<lparr>languages = ls, frameworks = fs, buildTools = bs, testing = ts,
                     packageManager = pm\<rparr>))))))"

text \<open>Two documents with a tech-stack section followed by a level-2 section.\<close>

definition techStackDoc :: string where
  "techStackDoc = join_lines
     [''# Project'', ''intro'', ''## Tech Stack'', ''- **Language:** TypeScript'',
      ''### Tooling'', ''- **Build:** esbuild'', ''## Testing'',
      ''- **Language:** ShouldNotAppear'']"

definition twoLanguagesDoc :: string where
  "twoLanguagesDoc = join_lines
     [''## Tech Stack'', ''- **Language:** TypeScript'', ''- **Language:** Go'',
      ''## Testing'', ''- **Language:** ShouldNotAppear'']"


section \<open>The filesystem interface and the file walker (types.ts, listFiles.ts)\<close>

text \<open>
  \<open>IFileSystem\<close> is the interface of the sources; each operation returns or throws. A file
  type is the number of \<open>FileType\<close>. The functions of Node's \<open>path\<close> module are
  parameters. \<open>readFile\<close> stands for the read followed by \<open>toString('utf8')\<close>.
\<close>

definition FileType_Unknown :: nat where "FileType_Unknown = 0"
definition FileType_File :: nat where "FileType_File = 1"
definition FileType_Directory :: nat where "FileType_Directory = 2"
definition FileType_SymbolicLink :: nat where "FileType_SymbolicLink = 64"

record StatResult =
  stat_type :: nat
  stat_mtime :: "int option"

record IFileSystem =
  readFile :: "string \<Rightarrow> jserror + string"
  readDirectory :: "string \<Rightarrow> jserror + (string \<times> nat) list"
  stat :: "string \<Rightarrow> jserror + StatResult"

record PathLib =
  path_join :: "string list \<Rightarrow> string"
  path_basename :: "string \<Rightarrow> string"
  path_extname :: "string \<Rightarrow> string"

definition normalizeExtensions :: "string list \<Rightarrow> string list" where
  "normalizeExtensions extensions =
     map (\<lambda>ext. if startsWith ext ''.'' then toLowerCase ext else ''.'' @ toLowerCase ext) extensions"

text \<open>
  \<open>walk\<close> of listFilesRecursive, threading the \<open>results\<close> array. The first argument bounds
  the depth of the recursion: \<open>None\<close> is a walk that needs a deeper recursion than that.
\<close>

fun walk :: "IFileSystem \<Rightarrow> PathLib \<Rightarrow> string list \<Rightarrow> nat \<Rightarrow> string \<Rightarrow> string list \<Rightarrow> string list option"
and walkEntries :: "IFileSystem \<Rightarrow> PathLib \<Rightarrow> string list \<Rightarrow> nat \<Rightarrow> string \<Rightarrow> (string \<times> nat) list \<Rightarrow> string list \<Rightarrow> string list option" where
  "walk fs P exts 0 dirPath results = None"
| "walk fs P exts (Suc d) dirPath results =
     (case readDirectory fs dirPath of
        Inl e \<Rightarrow> Some results
      | Inr entries \<Rightarrow> walkEntries fs P exts d dirPath entries results)"
| "walkEntries fs P exts d dirPath [] results = Some results"
| "walkEntries fs P exts d dirPath ((name, fileType) # es) results =
     (if name = ''.'' \<or> name = ''..'' then walkEntries fs P exts d dirPath es results
      else if fileType = FileType_Directory then
        (case walk fs P exts d (path_join P [dirPath, name]) results of
           None \<Rightarrow> None
         | Some results' \<Rightarrow> walkEntries fs P exts d dirPath es results')
      else if fileType = FileType_File \<or> fileType = FileType_SymbolicLink then
        (if List.member exts (toLowerCase (path_extname P name))
         then walkEntries fs P exts d dirPath es (results @ [path_join P [dirPath, name]])
         else walkEntries fs P exts d dirPath es results)
      else walkEntries fs P exts d dirPath es results)"

definition listFilesRecursive :: "IFileSystem \<Rightarrow> PathLib \<Rightarrow> nat \<Rightarrow> string \<Rightarrow> string list \<Rightarrow> string list option" where
  "listFilesRecursive fs P depth rootPath extensions =
     walk fs P (normalizeExtensions extensions) depth rootPath []"

section \<open>Scanning rules (scanRulesCore.ts)\<close>

record CoreRule =
  rule_path :: string
  rule_metadata :: CoreRuleMetadata
  rule_content :: string
  rule_fileName :: string

text \<open>The body of the loop over the file paths: the \<open>try\<close> block and its \<open>catch\<close>.\<close>

definition scanRuleFile :: "IFileSystem \<Rightarrow> PathLib \<Rightarrow> (string \<Rightarrow> jserror + GrayMatterFile) \<Rightarrow> string \<Rightarrow> CoreRule list \<Rightarrow> jserror + CoreRule list" where
  "scanRuleFile fs P matter filePath rules =
     tryCatch
       (bindE (readFile fs filePath) (\<lambda>text.
        bindE (parseRuleFromString matter text) (\<lambda>parsed.
        Inr (rules @ [\<lparr>rule_path = filePath, rule_metadata = metadata parsed,
                         rule_content = body parsed, rule_fileName = path_basename P filePath\<rparr>]))))
       (\<lambda>e. Inr (rules @ [\<lparr>rule_path = filePath,
                               rule_metadata = \<lparr>description = JStr ''Error parsing file'',
                                                  globs = JUndefined, alwaysApply = JUndefined\<rparr>,
                               rule_content = ''Error reading file content'',
                               rule_fileName = path_basename P filePath\<rparr>]))"

fun scanRuleFiles :: "IFileSystem \<Rightarrow> PathLib \<Rightarrow> (string \<Rightarrow> jserror + GrayMatterFile) \<Rightarrow> string list \<Rightarrow> CoreRule list \<Rightarrow> jserror + CoreRule list" where
  "scanRuleFiles fs P matter [] rules = Inr rules"
| "scanRuleFiles fs P matter (filePath # filePaths) rules =
     bindE (scanRuleFile fs P matter filePath rules) (scanRuleFiles fs P matter filePaths)"

definition scanRulesCore :: "IFileSystem \<Rightarrow> PathLib \<Rightarrow> (string \<Rightarrow> jserror + GrayMatterFile) \<Rightarrow> nat \<Rightarrow> string \<Rightarrow> string \<Rightarrow> (jserror + CoreRule list) option" where
  "scanRulesCore fs P matter depth projectRoot userRoot =
     (case listFilesRecursive fs P depth (path_join P [projectRoot, ''.cursor'', ''rules'']) [''.mdc'', ''.md''] of
        None \<Rightarrow> None
      | Some filePaths \<Rightarrow> Some (scanRuleFiles fs P matter filePaths []))"

text \<open>The entry that scanRulesCore pushes for one file path, in the words of the specification.\<close>

definition ruleEntry :: "IFileSystem \<Rightarrow> PathLib \<Rightarrow> (string \<Rightarrow> jserror + GrayMatterFile) \<Rightarrow> string \<Rightarrow> CoreRule" where
  "ruleEntry fs P matter filePath =
     (case readFile fs filePath of
        Inl e \<Rightarrow> \<lparr>rule_path = filePath,
                   rule_metadata = \<lparr>description = JStr ''Error parsing file'',
                                      globs = JUndefined, alwaysApply = JUndefined\<rparr>,
                   rule_content = ''Error reading file content'',
                   rule_fileName = path_basename P filePath\<rparr>
      | Inr text \<Rightarrow>
          (case parseRuleFromString matter text of
             Inr parsed \<Rightarrow> \<lparr>rule_path = filePath, rule_metadata = metadata parsed,
                              rule_content = body parsed, rule_fileName = path_basename P filePath\<rparr>
           | Inl e \<Rightarrow> \<lparr>rule_path = filePath,
                        rule_metadata = \<lparr>description = JStr ''Error parsing file'',
                                           globs = JUndefined, alwaysApply = JUndefined\<rparr>,
                        rule_content = ''Error reading file content'',
                        rule_fileName = path_basename P filePath\<rparr>))"

text \<open>
  A directory tree is well founded below \<open>root\<close> when a rank decreases from every listed
  directory to its subdirectories.
\<close>

definition ranked :: "IFileSystem \<Rightarrow> PathLib \<Rightarrow> (string \<Rightarrow> nat) \<Rightarrow> bool" where
  "ranked fs P rank \<longleftrightarrow>
     (\<forall>dirPath entries name. readDirectory fs dirPath = Inr entries \<and>
        (name, FileType_Directory) \<in> set entries \<longrightarrow>
        rank (path_join P [dirPath, name]) < rank dirPath)"

section \<open>Scanning ASDLC artifacts (scanAsdlcCore.ts)\<close>

definition ofSum :: "jserror + 'a \<Rightarrow> 'a outcome" where
  "ofSum r = (case r of Inl e \<Rightarrow> Throws e | Inr v \<Rightarrow> Returns v)"

definition tryCatchO :: "'a outcome \<Rightarrow> (jserror \<Rightarrow> 'a outcome) \<Rightarrow> 'a outcome" where
  "tryCatchO block handler = (case block of Throws e \<Rightarrow> handler e | other \<Rightarrow> other)"

record CoreAgentsMdInfo =
  agents_exists :: bool
  agents_path :: "string option"
  agents_content :: "string option"
  agents_sections :: "SimpleSection list"

record CoreSpecFile =
  spec_domain :: string
  spec_path :: string
  hasBlueprint :: bool
  hasContract :: bool
  lastModified :: "string option"

record CoreSchemaFile =
  schema_name :: string
  schema_path :: string
  schemaId :: jsval

record SpecsResult =
  specs_exists :: bool
  specs_path :: "string option"
  specs :: "CoreSpecFile list"

record SchemasResult =
  schemas_exists :: bool
  schemas_path :: "string option"
  schemas :: "CoreSchemaFile list"

record CoreAsdlcArtifacts =
  agentsMd :: CoreAgentsMdInfo
  asdlc_specs :: SpecsResult
  asdlc_schemas :: SchemasResult
  hasAnyArtifacts :: bool

definition scanAgentsMdCore :: "IFileSystem \<Rightarrow> PathLib \<Rightarrow> string \<Rightarrow> CoreAgentsMdInfo outcome" where
  "scanAgentsMdCore fs P projectRoot =
     tryCatchO
       (bindO (ofSum (stat fs (path_join P [projectRoot, ''AGENTS.md'']))) (\<lambda>st.
        if stat_type st \<noteq> FileType_File
        then Returns \<lparr>agents_exists = False, agents_path = None, agents_content = None,
                       agents_sections = []\<rparr>
        else
          bindO (ofSum (readFile fs (path_join P [projectRoot, ''AGENTS.md'']))) (\<lambda>content.
          Returns \<lparr>agents_exists = True,
                    agents_path = Some (path_join P [projectRoot, ''AGENTS.md'']),
                    agents_content = Some content,
                    agents_sections = parseSections (split_lines content)\<rparr>)))
       (\<lambda>e. Returns \<lparr>agents_exists = False, agents_path = None, agents_content = None,
                       agents_sections = []\<rparr>)"

text \<open>
  \<open>new Date(mtime).toISOString()\<close> is a parameter; it throws on a time out of range.
  The modification time is absent or a number of milliseconds; 0 is falsy.
\<close>

definition specEntry :: "IFileSystem \<Rightarrow> PathLib \<Rightarrow> (int \<Rightarrow> jserror + string) \<Rightarrow> string \<Rightarrow> string \<Rightarrow> CoreSpecFile list \<Rightarrow> (CoreSpecFile list) outcome" where
  "specEntry fs P toISOString specsPath name found =
     tryCatchO
       (bindO (ofSum (stat fs (path_join P [specsPath, name, ''spec.md'']))) (\<lambda>st.
        if stat_type st \<noteq> FileType_File then Returns found
        else
          bindO (ofSum (readFile fs (path_join P [specsPath, name, ''spec.md'']))) (\<lambda>content.
          bindO (hasSection content ''Blueprint'') (\<lambda>bp.
          bindO (hasSection content ''Contract'') (\<lambda>ct.
          bindO (case stat_mtime st of
                   None \<Rightarrow> Returns None
                 | Some m \<Rightarrow> if m = 0 then Returns None
                             else bindO (ofSum (toISOString m)) (\<lambda>iso. Returns (Some iso))) (\<lambda>lm.
          Returns (found @ [\<lparr>spec_domain = name,
                              spec_path = path_join P [specsPath, name, ''spec.md''],
                              hasBlueprint = bp, hasContract = ct, lastModified = lm\<rparr>])))))))
       (\<lambda>e. Returns found)"

fun specEntries :: "IFileSystem \<Rightarrow> PathLib \<Rightarrow> (int \<Rightarrow> jserror + string) \<Rightarrow> string \<Rightarrow> (string \<times> nat) list \<Rightarrow> CoreSpecFile list \<Rightarrow> (CoreSpecFile list) outcome" where
  "specEntries fs P toISOString specsPath [] found = Returns found"
| "specEntries fs P toISOString specsPath ((name, fileType) # entries) found =
     (if fileType \<noteq> FileType_Directory
      then specEntries fs P toISOString specsPath entries found
      else bindO (specEntry fs P toISOString specsPath name found)
             (specEntries fs P toISOString specsPath entries))"

definition scanSpecsCore :: "IFileSystem \<Rightarrow> PathLib \<Rightarrow> (int \<Rightarrow> jserror + string) \<Rightarrow> string \<Rightarrow> SpecsResult outcome" where
  "scanSpecsCore fs P toISOString projectRoot =
     tryCatchO
       (bindO (ofSum (stat fs (path_join P [projectRoot, ''specs'']))) (\<lambda>st.
        if stat_type st \<noteq> FileType_Directory
        then Returns \<lparr>specs_exists = False, specs_path = None, specs = []\<rparr>
        else
          bindO (ofSum (readDirectory fs (path_join P [projectRoot, ''specs'']))) (\<lambda>entries.
          bindO (specEntries fs P toISOString (path_join P [projectRoot, ''specs'']) entries []) (\<lambda>found.
          Returns \<lparr>specs_exists = True, specs_path = Some (path_join P [projectRoot, ''specs'']),
                    specs = found\<rparr>))))
       (\<lambda>e. Returns \<lparr>specs_exists = False, specs_path = None, specs = []\<rparr>)"

definition endsWith :: "string \<Rightarrow> string \<Rightarrow> bool" where
  "endsWith s t \<longleftrightarrow> startsWith (rev s) (rev t)"

text \<open>\<open>name.replace(/\.json$/, '')\<close>.\<close>

definition stripJson :: "string \<Rightarrow> string" where
  "stripJson name = (if endsWith name ''.json'' then take (length name - 5) name else name)"

definition schemaEntry :: "IFileSystem \<Rightarrow> PathLib \<Rightarrow> (string \<Rightarrow> jserror + jsval) \<Rightarrow> string \<Rightarrow> string \<Rightarrow> CoreSchemaFile list \<Rightarrow> (CoreSchemaFile list) outcome" where
  "schemaEntry fs P JSON_parse schemasPath name found =
     tryCatchO
       (bindO (ofSum (readFile fs (path_join P [schemasPath, name]))) (\<lambda>content.
        bindO (ofSum (extractSchemaId JSON_parse content)) (\<lambda>sid.
        Returns (found @ [\<lparr>schema_name = stripJson name,
                            schema_path = path_join P [schemasPath, name], schemaId = sid\<rparr>]))))
       (\<lambda>e. Returns (found @ [\<lparr>schema_name = stripJson name,
                                  schema_path = path_join P [schemasPath, name],
                                  schemaId = JUndefined\<rparr>]))"

fun schemaEntries :: "IFileSystem \<Rightarrow> PathLib \<Rightarrow> (string \<Rightarrow> jserror + jsval) \<Rightarrow> string \<Rightarrow> (string \<times> nat) list \<Rightarrow> CoreSchemaFile list \<Rightarrow> (CoreSchemaFile list) outcome" where
  "schemaEntries fs P JSON_parse schemasPath [] found = Returns found"
| "schemaEntries fs P JSON_parse schemasPath ((name, fileType) # entries) found =
     (if fileType \<noteq> FileType_File \<and> fileType \<noteq> FileType_SymbolicLink
      then schemaEntries fs P JSON_parse schemasPath entries found
      else if \<not> endsWith name ''.json''
      then schemaEntries fs P JSON_parse schemasPath entries found
      else bindO (schemaEntry fs P JSON_parse schemasPath name found)
             (schemaEntries fs P JSON_parse schemasPath entries))"

definition scanSchemasCore :: "IFileSystem \<Rightarrow> PathLib \<Rightarrow> (string \<Rightarrow> jserror + jsval) \<Rightarrow> string \<Rightarrow> SchemasResult outcome" where
  "scanSchemasCore fs P JSON_parse projectRoot =
     tryCatchO
       (bindO (ofSum (stat fs (path_join P [projectRoot, ''schemas'']))) (\<lambda>st.
        if stat_type st \<noteq> FileType_Directory
        then Returns \<lparr>schemas_exists = False, schemas_path = None, schemas = []\<rparr>
        else
          bindO (ofSum (readDirectory fs (path_join P [projectRoot, ''schemas'']))) (\<lambda>entries.
          bindO (schemaEntries fs P JSON_parse (path_join P [projectRoot, ''schemas'']) entries []) (\<lambda>found.
          Returns \<lparr>schemas_exists = True,
                    schemas_path = Some (path_join P [projectRoot, ''schemas'']),
                    schemas = found\<rparr>))))
       (\<lambda>e. Returns \<lparr>schemas_exists = False, schemas_path = None, schemas = []\<rparr>)"

text \<open>The three scans of \<open>Promise.all\<close>; the call rejects when one of them does.\<close>

definition scanAsdlcCore :: "IFileSystem \<Rightarrow> PathLib \<Rightarrow> (string \<Rightarrow> jserror + jsval) \<Rightarrow> (int \<Rightarrow> jserror + string) \<Rightarrow> string \<Rightarrow> CoreAsdlcArtifacts outcome" where
  "scanAsdlcCore fs P JSON_parse toISOString projectRoot =
     bindO (scanAgentsMdCore fs P projectRoot) (\<lambda>a.
     bindO (scanSpecsCore fs P toISOString projectRoot) (\<lambda>sp.
     bindO (scanSchemasCore fs P JSON_parse projectRoot) (\<lambda>sc.
     Returns \<lparr>agentsMd = a, asdlc_specs = sp, asdlc_schemas = sc,
               hasAnyArtifacts = (agents_exists a \<or> specs_exists sp \<or> schemas_exists sc)\<rparr>)))"

text \<open>An outcome that is a return or a throw.\<close>

definition settles :: "'a outcome \<Rightarrow> bool" where
  "settles m \<longleftrightarrow> (case m of Returns v \<Rightarrow> True | Throws e \<Rightarrow> True | _ \<Rightarrow> False)"

section \<open>Sample inputs\<close>

definition sampleMatter :: "string \<Rightarrow> jserror + GrayMatterFile" where
  "sampleMatter text =
     (if text = ''---\<newline>description: Style\<newline>globs: []\<newline>alwaysApply: true\<newline>---\<newline>\<newline>Use tabs.\<newline>''
      then Inr \<lparr>gm_data = JObj [(''description'', JStr ''Style''), (''globs'', JArr []),
                                   (''alwaysApply'', JBool True)],
                 gm_content = ''\<newline>Use tabs.\<newline>''\<rparr>
      else if text = ''---\<newline>description: [\<newline>---\<newline>''
      then Inl SyntaxError
      else Inr \<lparr>gm_data = JObj [], gm_content = text\<rparr>)"


text \<open>A path library on plain names, and a rules directory with an unreadable file.\<close>

definition samplePath :: PathLib where
  "samplePath =
     \<lparr>path_join = (\<lambda>parts. case parts of [] \<Rightarrow> ''.'' | p # ps \<Rightarrow> foldl (\<lambda>a b. a @ ''/'' @ b) p ps),
      path_basename = (\<lambda>p. rev (takeWhile (\<lambda>c. c \<noteq> CHR ''/'') (rev p))),
      path_extname = (\<lambda>p. if List.member p (CHR ''.'')
                             then ''.'' @ rev (takeWhile (\<lambda>c. c \<noteq> CHR ''.'') (rev p)) else [])\<rparr>"

definition sampleFs :: IFileSystem where
  "sampleFs =
     \<lparr>readFile = (\<lambda>p. if p = ''/proj/.cursor/rules/sub/b.md''
                        then Inr ''---\<newline>description: Style\<newline>globs: []\<newline>alwaysApply: true\<newline>---\<newline>\<newline>Use tabs.\<newline>''
                        else Inl (FsError ''EACCES'')),
      readDirectory = (\<lambda>p. if p = ''/proj/.cursor/rules''
                             then Inr [(''a.mdc'', FileType_File), (''sub'', FileType_Directory),
                                       (''notes.txt'', FileType_File)]
                             else if p = ''/proj/.cursor/rules/sub''
                             then Inr [(''b.md'', FileType_File)]
                             else Inl (FsError ''ENOENT'')),
      stat = (\<lambda>p. Inl (FsError ''ENOENT''))\<rparr>"

definition sampleRank :: "string \<Rightarrow> nat" where
  "sampleRank p = (if p = ''/proj/.cursor/rules'' then 1 else 0)"

text \<open>A project with an AGENTS.md and a schemas directory, and no specs directory.\<close>

definition sampleAsdlcFs :: IFileSystem where
  "sampleAsdlcFs =
     \<lparr>readFile = (\<lambda>p. if p = ''/proj/AGENTS.md'' then Inr ''# Agents\<newline>\<newline>Intro''
                        else if p = ''/proj/schemas/a.json'' then Inr ''{\"$id\":\"urn:a\"}''
                        else Inl (FsError ''ENOENT'')),
      readDirectory = (\<lambda>p. if p = ''/proj/schemas''
                             then Inr [(''a.json'', FileType_File), (''b.json'', FileType_File),
                                       (''notes.md'', FileType_File)]
                             else Inl (FsError ''ENOENT'')),
      stat = (\<lambda>p. if p = ''/proj/AGENTS.md''
                    then Inr \<lparr>stat_type = FileType_File, stat_mtime = None\<rparr>
                    else if p = ''/proj/schemas''
                    then Inr \<lparr>stat_type = FileType_Directory, stat_mtime = None\<rparr>
                    else Inl (FsError ''ENOENT''))\<rparr>"

text \<open>
  A project where AGENTS.md is a directory, schemas is a file and the specs directory
  cannot be listed.
\<close>

definition sampleBareFs :: IFileSystem where
  "sampleBareFs =
     \<lparr>readFile = (\<lambda>p. Inl (FsError ''EISDIR'')),
      readDirectory = (\<lambda>p. Inl (FsError ''EACCES'')),
      stat = (\<lambda>p. if p = ''/proj/AGENTS.md''
                    then Inr \<lparr>stat_type = FileType_Directory, stat_mtime = None\<rparr>
                    else if p = ''/proj/schemas''
                    then Inr \<lparr>stat_type = FileType_File, stat_mtime = None\<rparr>
                    else if p = ''/proj/specs''
                    then Inr \<lparr>stat_type = FileType_Directory, stat_mtime = None\<rparr>
                    else Inl (FsError ''ENOENT''))\<rparr>"

definition sampleToISOString :: "int \<Rightarrow> jserror + string" where
  "sampleToISOString m = (if m = 0 then Inr ''1970-01-01T00:00:00.000Z'' else Inl RangeError)"
section \<open>Properties of the search\<close>

lemma consume_drop: "consume k (p, s) = (if k = 0 \<or> s = [] then p else Some (s ! (min k (length s) - 1)), drop k s)"
proof (induction k "(p, s)" arbitrary: p s rule: consume.induct)
  case (1 ps)
  then show ?case by simp
next
  case (2 n p)
  then show ?case by simp
next
  case (3 n p c s)
  show ?case
  proof (cases "n = 0 \<or> s = []")
    case True
    then show ?thesis using 3 by auto
  next
    case False
    then have "min n (length s) - 1 < length s" by (cases s) auto
    have "min (Suc n) (Suc (length s)) - 1 = Suc (min n (length s) - 1)"
      using False by (cases n; cases s) auto
    then show ?thesis using 3 False by simp
  qed
qed

lemma snd_consume: "snd (consume k ps) = drop k (snd ps)"
  by (cases ps) (simp add: consume_drop)

lemma search_found:
  assumes "k \<le> length s"
    and "\<forall>j < k. ms f r ((if j = 0 then p else Some (s ! (j - 1)), drop j s), []) = []"
    and "ms f r ((if k = 0 then p else Some (s ! (k - 1)), drop k s), []) = (ps', cs) # others"
  shows "search f r i p s =
         Some (RMatch (i + k) (take (length (drop k s) - length (snd ps')) (drop k s)) cs ps')"
  using assms
proof (induction s arbitrary: p i k)
  case Nil
  then show ?case by simp
next
  case (Cons c s)
  show ?case
  proof (cases k)
    case 0
    then show ?thesis using Cons.prems(3) by simp
  next
    case (Suc k')
    have none0: "ms f r ((p, c # s), []) = []"
      using Cons.prems(2) Suc by force
    have le: "k' \<le> length s" using Cons.prems(1) Suc by simp
    have nm: "\<forall>j < k'. ms f r ((if j = 0 then Some c else Some (s ! (j - 1)), drop j s), []) = []"
    proof (intro allI impI)
      fix j assume "j < k'"
      then have "Suc j < k" using Suc by simp
      then have "ms f r ((if Suc j = 0 then p else Some ((c # s) ! (Suc j - 1)), drop (Suc j) (c # s)), []) = []"
        using Cons.prems(2) by blast
      then show "ms f r ((if j = 0 then Some c else Some (s ! (j - 1)), drop j s), []) = []"
        by (cases j) auto
    qed
    have at: "ms f r ((if k' = 0 then Some c else Some (s ! (k' - 1)), drop k' s), []) = (ps', cs) # others"
      using Cons.prems(3) Suc by (cases k') auto
    have "search f r (Suc i) (Some c) s =
         Some (RMatch (Suc i + k') (take (length (drop k' s) - length (snd ps')) (drop k' s)) cs ps')"
      using Cons.IH[OF le, of "Some c" "Suc i"] nm at by simp
    then show ?thesis using none0 Suc by simp
  qed
qed

lemma search_none:
  assumes "\<forall>j \<le> length s. ms f r ((if j = 0 then p else Some (s ! (j - 1)), drop j s), []) = []"
  shows "search f r i p s = None"
  using assms
proof (induction s arbitrary: p i)
  case Nil
  then show ?case by simp
next
  case (Cons c s)
  have none0: "ms f r ((p, c # s), []) = []"
    using Cons.prems by force
  have "\<forall>j \<le> length s. ms f r ((if j = 0 then Some c else Some (s ! (j - 1)), drop j s), []) = []"
  proof (intro allI impI)
    fix j assume "j \<le> length s"
    then have "Suc j \<le> length (c # s)" by simp
    then have "ms f r ((if Suc j = 0 then p else Some ((c # s) ! (Suc j - 1)), drop (Suc j) (c # s)), []) = []"
      using Cons.prems by blast
    then show "ms f r ((if j = 0 then Some c else Some (s ! (j - 1)), drop j s), []) = []"
      by (cases j) auto
  qed
  then have "search f r (Suc i) (Some c) s = None" by (rule Cons.IH)
  then show ?case using none0 by simp
qed

lemma search_cases:
  "(\<exists>k \<le> length s.
      (\<forall>j < k. ms f r ((if j = 0 then p else Some (s ! (j - 1)), drop j s), []) = []) \<and>
      ms f r ((if k = 0 then p else Some (s ! (k - 1)), drop k s), []) \<noteq> [])
   \<or> (\<forall>j \<le> length s. ms f r ((if j = 0 then p else Some (s ! (j - 1)), drop j s), []) = [])"
proof (cases "\<forall>j \<le> length s. ms f r ((if j = 0 then p else Some (s ! (j - 1)), drop j s), []) = []")
  case True
  then show ?thesis by blast
next
  case False
  define Q where "Q j \<longleftrightarrow> j \<le> length s \<and> ms f r ((if j = 0 then p else Some (s ! (j - 1)), drop j s), []) \<noteq> []" for j
  have ex: "\<exists>j. Q j" using False by (auto simp: Q_def)
  define k where "k = (LEAST j. Q j)"
  have qk: "Q k" unfolding k_def using ex by (rule LeastI_ex)
  have "\<forall>j < k. \<not> Q j" unfolding k_def using not_less_Least by blast
  then have "\<forall>j < k. ms f r ((if j = 0 then p else Some (s ! (j - 1)), drop j s), []) = []"
    using qk by (auto simp: Q_def)
  then show ?thesis using qk unfolding Q_def by blast
qed

lemma search_Some_mem:
  "search f r i p s = Some m \<Longrightarrow>
     \<exists>k \<le> length s. (m_after m, m_groups m) \<in>
        set (ms f r ((if k = 0 then p else Some (s ! (k - 1)), drop k s), []))"
proof (induction s arbitrary: p i)
  case Nil
  then show ?case by (auto split: list.splits)
next
  case (Cons c s)
  show ?case
  proof (cases "ms f r ((p, c # s), [])")
    case Nil
    then have "search f r (Suc i) (Some c) s = Some m" using Cons.prems by simp
    then obtain k where k: "k \<le> length s"
      "(m_after m, m_groups m) \<in> set (ms f r ((if k = 0 then Some c else Some (s ! (k - 1)), drop k s), []))"
      using Cons.IH by blast
    have "(m_after m, m_groups m) \<in>
        set (ms f r ((if Suc k = 0 then p else Some ((c # s) ! (Suc k - 1)), drop (Suc k) (c # s)), []))"
      using k(2) by (cases k) auto
    then show ?thesis using k(1) by (intro exI[of _ "Suc k"]) simp
  next
    case (Cons x xs)
    obtain ps' cs where x: "x = (ps', cs)" by (cases x)
    have "(m_after m, m_groups m) \<in> set (ms f r ((p, c # s), []))"
      using Cons.prems Cons x by auto
    then show ?thesis by (intro exI[of _ 0]) simp
  qed
qed

lemma ms1_Lit_caps: "y \<in> set (ms1 f (Lit l) (ps, cs)) \<Longrightarrow> snd y = cs"
  by (auto split: if_splits)

lemma ms1_Rep_caps: "y \<in> set (ms1 f (Rep a mn mx) (ps, cs)) \<Longrightarrow> snd y = cs"
  by (auto simp: Let_def)

lemma take_takeWhile_all: "k \<le> length (takeWhile P s) \<Longrightarrow> \<forall>c \<in> set (take k s). P c"
proof (induction s arbitrary: k)
  case Nil
  then show ?case by simp
next
  case (Cons a s)
  show ?case
  proof (cases k)
    case 0
    then show ?thesis by simp
  next
    case (Suc k')
    then have pa: "P a" using Cons.prems by (cases "P a") auto
    then have "k' \<le> length (takeWhile P s)" using Cons.prems Suc by simp
    then show ?thesis using Cons.IH pa Suc by simp
  qed
qed

lemma ms1_Rep_mem:
  assumes "y \<in> set (ms1 f (Rep a mn mx) (ps, cs))"
  shows "\<exists>k \<le> length (takeWhile (clsMatch (ignoreCase f) a) (snd ps)). y = (consume k ps, cs)"
proof -
  let ?avail = "length (takeWhile (clsMatch (ignoreCase f) a) (snd ps))"
  let ?hi = "case mx of None \<Rightarrow> ?avail | Some m \<Rightarrow> min m ?avail"
  have "y \<in> (\<lambda>k. (consume k ps, cs)) ` set (rev [mn ..< Suc ?hi])"
    using assms by (simp add: Let_def)
  then obtain k where km: "k \<in> set (rev [mn ..< Suc ?hi])" and y: "y = (consume k ps, cs)"
    by blast
  have k: "k < Suc ?hi" using km by (simp del: upt_Suc) 
  have "?hi \<le> ?avail" by (cases mx) simp_all
  then have "k \<le> ?avail" using k by linarith
  then show ?thesis using y by blast
qed

lemma ms_Cons_mem:
  "x \<in> set (ms f (r # rs) st) \<longleftrightarrow> (\<exists>y \<in> set (ms1 f r st). x \<in> set (ms f rs y))"
  by (simp del: ms1.simps)

lemma ms_single: "ms f [r] st = ms1 f r st"
proof -
  have "concat (map (\<lambda>y. [y]) xs) = xs" for xs :: "(pos \<times> captures) list"
    by (induction xs) simp_all
  moreover have "ms f [] = (\<lambda>y. [y])" by (rule ext) simp
  ultimately show ?thesis by (simp del: ms1.simps)
qed

lemma group_dot_caps:
  assumes "y \<in> set (ms f [Grp g [Rep CDot mn mx]] (ps, cs))"
  shows "\<exists>cap. snd y = (g, cap) # cs \<and> (\<forall>c \<in> set cap. \<not> isLineTerminator c)"
proof -
  let ?P = "clsMatch (ignoreCase f) CDot"
  let ?avail = "length (takeWhile ?P (snd ps))"
  have "y \<in> set (ms1 f (Grp g [Rep CDot mn mx]) (ps, cs))"
    using assms unfolding ms_single .
  then obtain z where z: "z \<in> set (ms f [Rep CDot mn mx] (ps, cs))"
    and y: "snd y = (g, take (length (snd ps) - length (snd (fst z))) (snd ps)) # snd z"
    by (auto simp del: ms.simps)
  have "z \<in> set (ms1 f (Rep CDot mn mx) (ps, cs))"
    using z unfolding ms_single .
  then obtain k where k: "k \<le> ?avail" and zk: "z = (consume k ps, cs)"
    using ms1_Rep_mem by blast
  have le: "k \<le> length (snd ps)"
    using k length_takeWhile_le[of ?P "snd ps"] by linarith
  then have "take (length (snd ps) - length (drop k (snd ps))) (snd ps) = take k (snd ps)"
    by simp
  moreover have "\<forall>c \<in> set (take k (snd ps)). ?P c"
    using take_takeWhile_all[OF k] .
  ultimately show ?thesis using y zk by (auto simp: snd_consume)
qed

lemma set_trim: "set (trim s) \<subseteq> set s"
proof -
  have "set (trim s) \<subseteq> set (rev (dropWhile isWhiteSpace s))"
    unfolding trim_def using set_dropWhileD by fastforce
  also have "\<dots> \<subseteq> set s" using set_dropWhileD by fastforce
  finally show ?thesis .
qed

lemma ms_Lit_step:
  "ms f (Lit l # rs) (ps, cs) =
     (if litMatch (ignoreCase f) l (snd ps) then ms f rs (consume (length l) ps, cs) else [])"
  by simp

lemma litMatch_prefix: "litMatch ic l (l @ x)"
  by (induction l) simp_all

lemma takeWhile_run:
  "\<forall>c \<in> set w. P c \<Longrightarrow> s' = [] \<or> \<not> P (hd s') \<Longrightarrow> takeWhile P (w @ s') = w"
  by (cases s') (simp_all add: takeWhile_append2)

lemma ms_Rep_first:
  assumes "snd ps = w @ s'"
    and "\<forall>c \<in> set w. clsMatch (ignoreCase f) a c"
    and "s' = [] \<or> \<not> clsMatch (ignoreCase f) a (hd s')"
    and "mn \<le> length w"
    and "ms f rs (consume (length w) ps, cs) = x # xs"
  shows "\<exists>others. ms f (Rep a mn None # rs) (ps, cs) = x # others"
proof -
  have tw: "takeWhile (clsMatch (ignoreCase f) a) (snd ps) = w"
    unfolding assms(1) using takeWhile_run[OF assms(2,3)] .
  have up: "rev [mn ..< Suc (length w)] = length w # rev [mn ..< length w]"
    using assms(4) by simp
  have "ms1 f (Rep a mn None) (ps, cs) =
        (consume (length w) ps, cs) # map (\<lambda>k. (consume k ps, cs)) (rev [mn ..< length w])"
    using tw up by (simp add: Let_def del: upt_Suc)
  then have "ms f (Rep a mn None # rs) (ps, cs) =
      ms f rs (consume (length w) ps, cs) @
      concat (map (ms f rs) (map (\<lambda>k. (consume k ps, cs)) (rev [mn ..< length w])))"
    by (simp del: ms1.simps)
  then show ?thesis using assms(5) by simp
qed

lemma group_first:
  assumes "snd ps = t @ rest" and "t \<noteq> []" and "\<forall>c \<in> set t. \<not> isLineTerminator c"
    and "rest = [] \<or> isLineTerminator (hd rest)"
  shows "\<exists>others. ms f [Grp g [Rep CDot 1 None]] (ps, cs) =
            (consume (length t) ps, (g, t) # cs) # others"
proof -
  have a: "\<forall>c \<in> set t. clsMatch (ignoreCase f) CDot c" using assms(3) by simp
  have b: "rest = [] \<or> \<not> clsMatch (ignoreCase f) CDot (hd rest)" using assms(4) by simp
  have c: "1 \<le> length t" using assms(2) by (cases t) simp_all
  have "ms f [] (consume (length t) ps, cs) = (consume (length t) ps, cs) # []" by simp
  then obtain others where o: "ms f [Rep CDot 1 None] (ps, cs) = (consume (length t) ps, cs) # others"
    using ms_Rep_first[OF assms(1) a b c] by blast
  have "take (length (snd ps) - length (snd (consume (length t) ps))) (snd ps) = t"
    using assms(1) by (simp add: snd_consume)
  then have "ms1 f (Grp g [Rep CDot 1 None]) (ps, cs) =
      (consume (length t) ps, (g, t) # cs) #
      map (\<lambda>(ps', cs'). (ps', (g, take (length (snd ps) - length (snd ps')) (snd ps)) # cs')) others"
    using o by (simp del: ms.simps)
  then show ?thesis unfolding ms_single by blast
qed

lemma rx_match_none_iff:
  "rx_match f r s = None \<longleftrightarrow> (\<forall>k \<le> length s. \<not> matchesAt f r s k)"
proof
  assume n: "rx_match f r s = None"
  show "\<forall>k \<le> length s. \<not> matchesAt f r s k"
  proof (rule ccontr)
    assume "\<not> (\<forall>k \<le> length s. \<not> matchesAt f r s k)"
    then have "\<not> (\<forall>j \<le> length s. ms f r ((if j = 0 then None else Some (s ! (j - 1)), drop j s), []) = [])"
      by (auto simp: matchesAt_def posAt_def)
    then obtain k where k: "k \<le> length s"
      "\<forall>j < k. ms f r ((if j = 0 then None else Some (s ! (j - 1)), drop j s), []) = []"
      "ms f r ((if k = 0 then None else Some (s ! (k - 1)), drop k s), []) \<noteq> []"
      using search_cases[of s f r None] by blast
    obtain x xs where "ms f r ((if k = 0 then None else Some (s ! (k - 1)), drop k s), []) = x # xs"
      using k(3) by (cases "ms f r ((if k = 0 then None else Some (s ! (k - 1)), drop k s), [])") auto
    then have "search f r 0 None s \<noteq> None"
      using search_found[OF k(1) k(2), of "fst x" "snd x" xs 0] by simp
    then show False using n by (simp add: rx_match_def)
  qed
next
  assume "\<forall>k \<le> length s. \<not> matchesAt f r s k"
  then have "\<forall>j \<le> length s. ms f r ((if j = 0 then None else Some (s ! (j - 1)), drop j s), []) = []"
    by (auto simp: matchesAt_def posAt_def)
  then show "rx_match f r s = None"
    unfolding rx_match_def by (rule search_none)
qed

section \<open>The texts a pattern matches\<close>





































section \<open>Properties of parseSections\<close>

lemma loop_acc:
  "parseSections_loop n i ls cur acc = acc @ parseSections_loop n i ls cur []"
proof (induction ls arbitrary: i cur acc)
  case Nil
  then show ?case by (simp split: option.splits)
next
  case (Cons l ls)
  show ?case
  proof (cases "rx_match noFlags headingRx l")
    case None
    then show ?thesis using Cons.IH[of "i + 1" cur acc] by simp
  next
    case (Some m)
    show ?thesis
    proof (cases cur)
      case None
      then show ?thesis using Some Cons.IH[of "i + 1" _ acc] by simp
    next
      case (Some c)
      let ?new = "Some \<lparr>level = length (group m 1), title = trim (group m 2), startLine = i, endLine = n - 1\<rparr>"
      have "parseSections_loop n (i + 1) ls ?new (acc @ [c\<lparr>endLine := i - 1\<rparr>])
            = (acc @ [c\<lparr>endLine := i - 1\<rparr>]) @ parseSections_loop n (i + 1) ls ?new []"
        by (rule Cons.IH)
      moreover have "parseSections_loop n (i + 1) ls ?new [c\<lparr>endLine := i - 1\<rparr>]
            = [c\<lparr>endLine := i - 1\<rparr>] @ parseSections_loop n (i + 1) ls ?new []"
        by (rule Cons.IH)
      ultimately show ?thesis using Some \<open>rx_match noFlags headingRx l = Some m\<close> by simp
    qed
  qed
qed

lemma loop_heading_step:
  assumes "rx_match noFlags headingRx l = Some m"
  shows "parseSections_loop n i (l # ls) cur [] =
      (case cur of None \<Rightarrow> [] | Some c \<Rightarrow> [c\<lparr>endLine := i - 1\<rparr>]) @
      parseSections_loop n (i + 1) ls
        (Some \<lparr>level = length (group m 1), title = trim (group m 2), startLine = i, endLine = n - 1\<rparr>) []"
  using assms loop_acc[of n "i + 1" ls _ "[_]"] by (simp split: option.splits)

lemma loop_plain_step:
  assumes "rx_match noFlags headingRx l = None"
  shows "parseSections_loop n i (l # ls) cur [] = parseSections_loop n (i + 1) ls cur []"
  using assms by simp

lemma loop_open:
  "parseSections_loop n i ls (Some c) [] \<noteq> [] \<and>
   startLine (hd (parseSections_loop n i ls (Some c) [])) = startLine c \<and>
   level (hd (parseSections_loop n i ls (Some c) [])) = level c \<and>
   title (hd (parseSections_loop n i ls (Some c) [])) = title c"
proof (induction ls arbitrary: i)
  case Nil
  then show ?case by simp
next
  case (Cons l ls)
  show ?case
  proof (cases "rx_match noFlags headingRx l")
    case None
    then show ?thesis using Cons.IH[of "i + 1"] by simp
  next
    case (Some m)
    then show ?thesis by (simp add: loop_heading_step del: parseSections_loop.simps)
  qed
qed

lemma loop_chained:
  assumes "n = i + int (length ls)"
    and "\<And>c. cur = Some c \<Longrightarrow> startLine c < i \<and> endLine c = n - 1"
  shows "chained n (parseSections_loop n i ls cur [])"
  using assms
proof (induction ls arbitrary: i cur)
  case Nil
  then show ?case by (cases cur) auto
next
  case (Cons l ls)
  show ?case
  proof (cases "rx_match noFlags headingRx l")
    case None
    have "chained n (parseSections_loop n (i + 1) ls cur [])"
      using Cons.prems by (intro Cons.IH) force+
    then show ?thesis using None by simp
  next
    case (Some m)
    let ?new = "\<lparr>level = length (group m 1), title = trim (group m 2), startLine = i, endLine = n - 1\<rparr>"
    let ?rest = "parseSections_loop n (i + 1) ls (Some ?new) []"
    have ch: "chained n ?rest"
      using Cons.prems by (intro Cons.IH) auto
    have ne: "?rest \<noteq> []" and st: "startLine (hd ?rest) = i"
      using loop_open[of n "i + 1" ls ?new] by simp_all
    show ?thesis
    proof (cases cur)
      case None
      then show ?thesis using ch Some by (simp add: loop_heading_step del: parseSections_loop.simps)
    next
      case (Some c)
      obtain t r where tr: "?rest = t # r" using ne by (cases ?rest) auto
      have "startLine c < i" using Cons.prems(2)[OF Some] by simp
      then have "chained n (c\<lparr>endLine := i - 1\<rparr> # ?rest)"
        using ch st unfolding tr by simp
      then show ?thesis using Some \<open>rx_match noFlags headingRx l = Some m\<close>
        by (simp add: loop_heading_step del: parseSections_loop.simps)
    qed
  qed
qed

lemma chained_nth:
  "chained n ss \<Longrightarrow> Suc k < length ss \<Longrightarrow>
     endLine (ss ! k) = startLine (ss ! Suc k) - 1 \<and> startLine (ss ! k) \<le> endLine (ss ! k)"
proof (induction n ss arbitrary: k rule: chained.induct)
  case (3 n s t r)
  show ?case
  proof (cases k)
    case 0
    then show ?thesis using 3(2) by (cases r) auto
  next
    case (Suc m)
    then have "Suc m < length (t # r)" using 3(3) by simp
    then show ?thesis using "3.IH"[of m] 3(2) Suc by simp
  qed
qed auto

lemma chained_last:
  "chained n ss \<Longrightarrow> ss \<noteq> [] \<Longrightarrow>
     endLine (last ss) = n - 1 \<and> startLine (last ss) \<le> endLine (last ss)"
  by (induction n ss rule: chained.induct) auto

lemma chained_mono:
  "chained n ss \<Longrightarrow> k < k' \<Longrightarrow> k' < length ss \<Longrightarrow> endLine (ss ! k) < startLine (ss ! k')"
proof (induction n ss arbitrary: k k' rule: chained.induct)
  case (3 n s t r)
  show ?case
  proof (cases k)
    case 0
    show ?thesis
    proof (cases "k' = Suc 0")
      case True
      then show ?thesis using 0 3 by simp
    next
      case False
      then obtain m where m: "k' = Suc (Suc m)" using 3(3) 0 by (cases k') (auto simp: gr0_conv_Suc)
      have "endLine ((t # r) ! 0) < startLine ((t # r) ! Suc m)"
        using 3 m by (intro "3.IH") auto
      moreover have "startLine t \<le> endLine t"
        using 3(2) by (cases r) auto
      ultimately show ?thesis using 0 m 3(2) by simp
    qed
  next
    case (Suc j)
    then obtain j' where j': "k' = Suc j'" using 3(3) by (cases k') auto
    have "endLine ((t # r) ! j) < startLine ((t # r) ! j')"
      using 3 Suc j' by (intro "3.IH") auto
    then show ?thesis using Suc j' by simp
  qed
qed auto

lemma chained_cover_ex:
  "chained n ss \<Longrightarrow> ss \<noteq> [] \<Longrightarrow> startLine (hd ss) \<le> j \<Longrightarrow> j \<le> n - 1 \<Longrightarrow>
     \<exists>k < length ss. covers (ss ! k) j"
proof (induction n ss rule: chained.induct)
  case (2 n s)
  then show ?case by (auto simp: covers_def)
next
  case (3 n s t r)
  show ?case
  proof (cases "j \<le> endLine s")
    case True
    then have "covers ((s # t # r) ! 0) j" using 3 by (simp add: covers_def)
    then show ?thesis by blast
  next
    case False
    then have "startLine (hd (t # r)) \<le> j" using 3(2) by simp
    then obtain k where "k < length (t # r)" "covers ((t # r) ! k) j"
      using 3 by auto
    then have "Suc k < length (s # t # r) \<and> covers ((s # t # r) ! Suc k) j" by simp
    then show ?thesis by blast
  qed
qed auto

lemma chained_cover_unique:
  assumes "chained n ss" "k < length ss" "k' < length ss" "covers (ss ! k) j" "covers (ss ! k') j"
  shows "k = k'"
proof (rule ccontr)
  assume "k \<noteq> k'"
  then consider "k < k'" | "k' < k" by linarith
  then show False
  proof cases
    case 1
    then show ?thesis using chained_mono[OF assms(1) 1 assms(3)] assms(4,5) by (simp add: covers_def)
  next
    case 2
    then show ?thesis using chained_mono[OF assms(1) 2 assms(2)] assms(4,5) by (simp add: covers_def)
  qed
qed

lemma loop_headings:
  "map (\<lambda>s. (startLine s, level s, title s)) (parseSections_loop n (int k) ls cur []) =
     (case cur of None \<Rightarrow> [] | Some c \<Rightarrow> [(startLine c, level c, title c)]) @
     map (\<lambda>(i, l). (int i, headingLevel l, headingTitle l))
         (filter (\<lambda>(i, l). isHeading l) (enumerate k ls))"
proof (induction ls arbitrary: k cur)
  case Nil
  then show ?case by (simp split: option.splits)
next
  case (Cons l ls)
  show ?case
  proof (cases "rx_match noFlags headingRx l")
    case None
    then show ?thesis using Cons.IH[of "Suc k" cur]
      by (simp add: isHeading_def add.commute)
  next
    case (Some m)
    have IH: "map (\<lambda>s. (startLine s, level s, title s)) (parseSections_loop n (int k + 1) ls cur' []) =
     (case cur' of None \<Rightarrow> [] | Some c \<Rightarrow> [(startLine c, level c, title c)]) @
     map (\<lambda>(i, l). (int i, headingLevel l, headingTitle l))
         (filter (\<lambda>(i, l). isHeading l) (enumerate (Suc k) ls))" for cur'
      using Cons.IH[of "Suc k" cur'] by (simp add: add.commute)
    show ?thesis using Some
      by (simp add: loop_heading_step IH isHeading_def headingLevel_def headingTitle_def
               del: parseSections_loop.simps split: option.splits)
  qed
qed

text \<open>
  C1 (amended). parseSections returns one section per heading line, in document order, with
  that line as start line, the number of \<open>#\<close> as level and the trimmed remainder as title;
  a document with no heading line yields no section; every non-final section ends on the
  line before the next section starts; the final section ends on the last line index; and
  the sections partition the line range from the first heading line to the last line
  index, with no gaps and no overlaps. Lines before the first heading belong to no section.
\<close>

theorem parseSections_spans:
  "map (\<lambda>s. (startLine s, level s, title s)) (parseSections lines) =
     map (\<lambda>(i, l). (int i, headingLevel l, headingTitle l)) (headingLines lines)
   \<and> ((\<forall>l \<in> set lines. \<not> isHeading l) \<longrightarrow> parseSections lines = [])
   \<and> (\<forall>k. Suc k < length (parseSections lines) \<longrightarrow>
          endLine (parseSections lines ! k) = startLine (parseSections lines ! Suc k) - 1)
   \<and> (parseSections lines \<noteq> [] \<longrightarrow>
          endLine (last (parseSections lines)) = int (length lines) - 1)
   \<and> (\<forall>k < length (parseSections lines).
          0 \<le> startLine (parseSections lines ! k) \<and>
          startLine (parseSections lines ! k) \<le> endLine (parseSections lines ! k) \<and>
          endLine (parseSections lines ! k) \<le> int (length lines) - 1)
   \<and> (\<forall>j. parseSections lines \<noteq> [] \<and> startLine (hd (parseSections lines)) \<le> j \<and>
            j \<le> int (length lines) - 1 \<longrightarrow>
          (\<exists>!k. k < length (parseSections lines) \<and> covers (parseSections lines ! k) j))
   \<and> (\<forall>j k. k < length (parseSections lines) \<and> covers (parseSections lines ! k) j \<longrightarrow>
          startLine (hd (parseSections lines)) \<le> j \<and> j \<le> int (length lines) - 1)"
proof -
  let ?ss = "parseSections lines"
  let ?n = "int (length lines)"
  have ch: "chained ?n ?ss"
    unfolding parseSections_def by (rule loop_chained) auto
  have hd: "map (\<lambda>s. (startLine s, level s, title s)) ?ss =
     map (\<lambda>(i, l). (int i, headingLevel l, headingTitle l)) (headingLines lines)"
    unfolding parseSections_def headingLines_def using loop_headings[of ?n 0 lines None] by simp
  have empty: "(\<forall>l \<in> set lines. \<not> isHeading l) \<longrightarrow> ?ss = []"
  proof
    assume "\<forall>l \<in> set lines. \<not> isHeading l"
    then have "headingLines lines = []"
      unfolding headingLines_def by (auto simp: filter_empty_conv in_set_enumerate_eq)
    then show "?ss = []" using hd by simp
  qed
  have starts: "0 \<le> startLine s" if "s \<in> set ?ss" for s
  proof -
    have "startLine s \<in> fst ` set (map (\<lambda>s. (startLine s, level s, title s)) ?ss)"
      using that by force
    then show ?thesis unfolding hd by auto
  qed
  have bounds: "\<forall>k < length ?ss. 0 \<le> startLine (?ss ! k) \<and> startLine (?ss ! k) \<le> endLine (?ss ! k)
       \<and> endLine (?ss ! k) \<le> ?n - 1"
  proof (intro allI impI)
    fix k assume k: "k < length ?ss"
    then have ne: "?ss \<noteq> []" by auto
    have a: "0 \<le> startLine (?ss ! k)" using starts k by simp
    have b: "startLine (?ss ! k) \<le> endLine (?ss ! k) \<and> endLine (?ss ! k) \<le> ?n - 1"
    proof (cases "Suc k < length ?ss")
      case True
      have "endLine (?ss ! k) < startLine (?ss ! (length ?ss - 1))"
        using chained_mono[OF ch, of k "length ?ss - 1"] True by simp
      moreover have "startLine (last ?ss) \<le> ?n - 1" using chained_last[OF ch ne] by simp
      ultimately show ?thesis using chained_nth[OF ch True] by (simp add: last_conv_nth[OF ne])
    next
      case False
      then have "k = length ?ss - 1" using k by linarith
      then have "?ss ! k = last ?ss" using last_conv_nth[OF ne] by simp
      then show ?thesis using chained_last[OF ch ne] by simp
    qed
    show "0 \<le> startLine (?ss ! k) \<and> startLine (?ss ! k) \<le> endLine (?ss ! k) \<and> endLine (?ss ! k) \<le> ?n - 1"
      using a b by simp
  qed
  have part: "\<forall>j. ?ss \<noteq> [] \<and> startLine (hd ?ss) \<le> j \<and> j \<le> ?n - 1 \<longrightarrow>
          (\<exists>!k. k < length ?ss \<and> covers (?ss ! k) j)"
  proof (intro allI impI)
    fix j assume j: "?ss \<noteq> [] \<and> startLine (hd ?ss) \<le> j \<and> j \<le> ?n - 1"
    then obtain k where "k < length ?ss" "covers (?ss ! k) j"
      using chained_cover_ex[OF ch, of j] by auto
    then show "\<exists>!k. k < length ?ss \<and> covers (?ss ! k) j"
      using chained_cover_unique[OF ch] by blast
  qed
  have outside: "\<forall>j k. k < length ?ss \<and> covers (?ss ! k) j \<longrightarrow>
          startLine (hd ?ss) \<le> j \<and> j \<le> ?n - 1"
  proof (intro allI impI)
    fix j k assume a: "k < length ?ss \<and> covers (?ss ! k) j"
    then have ne: "?ss \<noteq> []" by auto
    have "startLine (hd ?ss) \<le> startLine (?ss ! k)"
    proof (cases k)
      case 0
      then show ?thesis using ne by (simp add: hd_conv_nth)
    next
      case (Suc m)
      have "endLine (?ss ! 0) < startLine (?ss ! k)"
        using chained_mono[OF ch, of 0 k] a Suc by simp
      moreover have "startLine (?ss ! 0) \<le> endLine (?ss ! 0)" using bounds ne by simp
      ultimately show ?thesis using ne by (simp add: hd_conv_nth)
    qed
    moreover have "endLine (?ss ! k) \<le> ?n - 1" using bounds a by simp
    ultimately show "startLine (hd ?ss) \<le> j \<and> j \<le> ?n - 1"
      using a by (simp add: covers_def)
  qed
  show ?thesis
    using hd empty chained_nth[OF ch] chained_last[OF ch] bounds part outside by simp
qed

theorem parseSections_spans_witness:
  "parseSections [''intro'', ''# A'', ''text'', ''## B'', ''more''] =
     [\<lparr>level = 1, title = ''A'', startLine = 1, endLine = 2\<rparr>,
      \<lparr>level = 2, title = ''B'', startLine = 3, endLine = 4\<rparr>]
   \<and> Suc 0 < length (parseSections [''intro'', ''# A'', ''text'', ''## B'', ''more''])
   \<and> endLine (parseSections [''intro'', ''# A'', ''text'', ''## B'', ''more''] ! 0) =
       startLine (parseSections [''intro'', ''# A'', ''text'', ''## B'', ''more''] ! Suc 0) - 1
   \<and> endLine (last (parseSections [''intro'', ''# A'', ''text'', ''## B'', ''more''])) = 4
   \<and> (\<exists>!k. k < length (parseSections [''intro'', ''# A'', ''text'', ''## B'', ''more'']) \<and>
            covers (parseSections [''intro'', ''# A'', ''text'', ''## B'', ''more''] ! k) 2)
   \<and> \<not> isHeading ''intro'' \<and> \<not> isHeading ''text''
   \<and> parseSections [''intro'', ''text''] = []"
proof -
  let ?L = "[''intro'', ''# A'', ''text'', ''## B'', ''more'']"
  have ev: "parseSections ?L =
     [\<lparr>level = 1, title = ''A'', startLine = 1, endLine = 2\<rparr>,
      \<lparr>level = 2, title = ''B'', startLine = 3, endLine = 4\<rparr>]"
    by code_simp
  have nh: "\<not> isHeading ''intro''" "\<not> isHeading ''text''"
    by code_simp+
  have a: "endLine (parseSections ?L ! 0) = startLine (parseSections ?L ! Suc 0) - 1"
    using parseSections_spans[of ?L] ev by simp
  have b: "endLine (last (parseSections ?L)) = 4"
    using parseSections_spans[of ?L] ev by simp
  have c: "\<exists>!k. k < length (parseSections ?L) \<and> covers (parseSections ?L ! k) 2"
  proof -
    have "parseSections ?L \<noteq> [] \<and> startLine (hd (parseSections ?L)) \<le> 2 \<and> 2 \<le> int (length ?L) - 1"
      using ev by simp
    then show ?thesis using parseSections_spans[of ?L] by blast
  qed
  have d: "parseSections [''intro'', ''text''] = []"
    using parseSections_spans[of "[''intro'', ''text'']"] nh by simp
  show ?thesis using ev a b c d nh by simp
qed

theorem parseSections_gap_counterexample:
  "parseSections [''intro'', ''# A''] = [\<lparr>level = 1, title = ''A'', startLine = 1, endLine = 1\<rparr>]
   \<and> \<not> covered (parseSections [''intro'', ''# A'']) 0"
  by code_simp

section \<open>Properties of the rule parser\<close>

text \<open>
  C3. When the frontmatter extractor returns a mapping, the metadata's description is the
  mapping's description field or "No description", its globs the globs field or the empty
  sequence, its alwaysApply the alwaysApply field or false (the field when it is present
  and truthy, as \<open>||\<close> has it), and the content is the trimmed body. When the extractor
  fails, the result is the description "Error parsing file" with the content "Error
  reading file content". The parser never throws.
\<close>

theorem parseRuleFromString_spec:
  "(matter text = Inr parsed \<and> gm_data parsed = JObj kvs \<longrightarrow>
      parseRuleFromString matter text =
        Inr \<lparr>metadata = \<lparr>description = fieldOr kvs ''description'' (JStr ''No description''),
                           globs = fieldOr kvs ''globs'' (JArr []),
                           alwaysApply = fieldOr kvs ''alwaysApply'' (JBool False)\<rparr>,
             body = trim (gm_content parsed)\<rparr>)
   \<and> (matter text = Inl e \<longrightarrow>
      parseRuleFromString matter text =
        Inr \<lparr>metadata = \<lparr>description = JStr ''Error parsing file'',
                           globs = JUndefined, alwaysApply = JUndefined\<rparr>,
             body = ''Error reading file content''\<rparr>)
   \<and> (\<exists>r. parseRuleFromString matter text = Inr r)"
proof (intro conjI impI)
  assume a: "matter text = Inr parsed \<and> gm_data parsed = JObj kvs"
  then show "parseRuleFromString matter text =
        Inr \<lparr>metadata = \<lparr>description = fieldOr kvs ''description'' (JStr ''No description''),
                           globs = fieldOr kvs ''globs'' (JArr []),
                           alwaysApply = fieldOr kvs ''alwaysApply'' (JBool False)\<rparr>,
             body = trim (gm_content parsed)\<rparr>"
    by (simp add: parseRuleFromString_def tryCatch_def bindE_def jsOr_def fieldOr_def split: option.splits)
next
  assume "matter text = Inl e"
  then show "parseRuleFromString matter text =
        Inr \<lparr>metadata = \<lparr>description = JStr ''Error parsing file'',
                           globs = JUndefined, alwaysApply = JUndefined\<rparr>,
             body = ''Error reading file content''\<rparr>"
    by (simp add: parseRuleFromString_def tryCatch_def bindE_def)
next
  show "\<exists>r. parseRuleFromString matter text = Inr r"
    by (simp add: parseRuleFromString_def tryCatch_def bindE_def split: sum.splits)
qed

theorem parseRuleFromString_spec_witness:
  "parseRuleFromString sampleMatter
      ''---\<newline>description: Style\<newline>globs: []\<newline>alwaysApply: true\<newline>---\<newline>\<newline>Use tabs.\<newline>'' =
     Inr \<lparr>metadata = \<lparr>description = JStr ''Style'', globs = JArr [], alwaysApply = JBool True\<rparr>,
          body = ''Use tabs.''\<rparr>
   \<and> parseRuleFromString sampleMatter ''---\<newline>description: [\<newline>---\<newline>'' =
     Inr \<lparr>metadata = \<lparr>description = JStr ''Error parsing file'',
                        globs = JUndefined, alwaysApply = JUndefined\<rparr>,
          body = ''Error reading file content''\<rparr>
   \<and> parseRuleFromString sampleMatter ''  plain  '' =
     Inr \<lparr>metadata = \<lparr>description = JStr ''No description'', globs = JArr [],
                        alwaysApply = JBool False\<rparr>,
          body = ''plain''\<rparr>"
proof -
  let ?t1 = "''---\<newline>description: Style\<newline>globs: []\<newline>alwaysApply: true\<newline>---\<newline>\<newline>Use tabs.\<newline>''"
  let ?p1 = "\<lparr>gm_data = JObj [(''description'', JStr ''Style''), (''globs'', JArr []),
                                   (''alwaysApply'', JBool True)],
                 gm_content = ''\<newline>Use tabs.\<newline>''\<rparr>"
  have m1: "sampleMatter ?t1 = Inr ?p1 \<and> gm_data ?p1 = JObj [(''description'', JStr ''Style''), (''globs'', JArr []),
                                   (''alwaysApply'', JBool True)]"
    by (simp add: sampleMatter_def)
  have m2: "sampleMatter ''---\<newline>description: [\<newline>---\<newline>'' = Inl SyntaxError"
    by (simp add: sampleMatter_def)
  have m3: "sampleMatter ''  plain  '' = Inr \<lparr>gm_data = JObj [], gm_content = ''  plain  ''\<rparr>
       \<and> gm_data \<lparr>gm_data = JObj [], gm_content = ''  plain  ''\<rparr> = JObj []"
    by (simp add: sampleMatter_def)
  have r1: "parseRuleFromString sampleMatter ?t1 =
     Inr \<lparr>metadata = \<lparr>description = JStr ''Style'', globs = JArr [], alwaysApply = JBool True\<rparr>,
          body = ''Use tabs.''\<rparr>"
    using parseRuleFromString_spec[of sampleMatter ?t1 ?p1 _ SyntaxError] m1
    by (simp add: fieldOr_def trim_def isWhiteSpace_def)
  have r2: "parseRuleFromString sampleMatter ''---\<newline>description: [\<newline>---\<newline>'' =
     Inr \<lparr>metadata = \<lparr>description = JStr ''Error parsing file'',
                        globs = JUndefined, alwaysApply = JUndefined\<rparr>,
          body = ''Error reading file content''\<rparr>"
    using parseRuleFromString_spec[of sampleMatter "''---\<newline>description: [\<newline>---\<newline>''" _ _ SyntaxError] m2
    by simp
  have r3: "parseRuleFromString sampleMatter ''  plain  '' =
     Inr \<lparr>metadata = \<lparr>description = JStr ''No description'', globs = JArr [],
                        alwaysApply = JBool False\<rparr>,
          body = ''plain''\<rparr>"
    using parseRuleFromString_spec[of sampleMatter "''  plain  ''" "\<lparr>gm_data = JObj [], gm_content = ''  plain  ''\<rparr>" "[]" SyntaxError] m3
    by (simp add: fieldOr_def trim_def isWhiteSpace_def)
  show ?thesis using r1 r2 r3 by simp
qed
section \<open>Properties of the skill parser\<close>

















section \<open>Properties of extractSchemaId\<close>



section \<open>Properties of scanRulesCore\<close>

lemma walk_enough:
  assumes rk: "ranked fs P rank"
  shows "rank dirPath < d \<Longrightarrow> \<exists>r. walk fs P exts d dirPath results = Some r"
    and "(\<And>name. (name, FileType_Directory) \<in> set es \<Longrightarrow> rank (path_join P [dirPath, name]) < d)
         \<Longrightarrow> \<exists>r. walkEntries fs P exts d dirPath es results = Some r"
  using rk
proof (induction fs P exts d dirPath results and fs P exts d dirPath es results rule: walk_walkEntries.induct)
  case (1 fs P exts dirPath results)
  then show ?case by simp
next
  case (2 fs P exts d dirPath results)
  show ?case
  proof (cases "readDirectory fs dirPath")
    case (Inl e)
    then show ?thesis by simp
  next
    case (Inr entries)
    have sub: "rank (path_join P [dirPath, name]) < d" if "(name, FileType_Directory) \<in> set entries" for name
    proof -
      have "rank (path_join P [dirPath, name]) < rank dirPath"
        using "2.prems"(2) Inr that unfolding ranked_def by blast
      then show ?thesis using "2.prems"(1) by linarith
    qed
    have "\<exists>r. walkEntries fs P exts d dirPath entries results = Some r"
      using "2.IH"[OF Inr sub "2.prems"(2)] by blast
    then show ?thesis using Inr by simp
  qed
next
  case (3 fs P exts d dirPath results)
  then show ?case by simp
next
  case (4 fs P exts d dirPath name fileType es results)
  have rest: "rank (path_join P [dirPath, n]) < d" if "(n, FileType_Directory) \<in> set es" for n
    using "4.prems"(1)[of n] that by simp
  show ?case
  proof (cases "name = ''.'' \<or> name = ''..''")
    case True
    then show ?thesis using "4.IH"(1)[OF True rest "4.prems"(2)] by simp
  next
    case False
    show ?thesis
    proof (cases "fileType = FileType_Directory")
      case True
      have "rank (path_join P [dirPath, name]) < d"
        using "4.prems"(1)[of name] True by simp
      then obtain r' where r': "walk fs P exts d (path_join P [dirPath, name]) results = Some r'"
        using "4.IH"(2)[OF False True _ "4.prems"(2)] by blast
      have "\<exists>r. walkEntries fs P exts d dirPath es r' = Some r"
        using "4.IH"(3)[OF False True r' rest "4.prems"(2)] by blast
      then show ?thesis using False True r' by simp
    next
      case nd: False
      show ?thesis
      proof (cases "fileType = FileType_File \<or> fileType = FileType_SymbolicLink")
        case True
        show ?thesis
        proof (cases "List.member exts (toLowerCase (path_extname P name))")
          case m: True
          have "\<exists>r. walkEntries fs P exts d dirPath es (results @ [path_join P [dirPath, name]]) = Some r"
            using "4.IH"(4)[OF False nd True m rest "4.prems"(2)] by blast
          then show ?thesis using False nd True m by simp
        next
          case m: False
          have "\<exists>r. walkEntries fs P exts d dirPath es results = Some r"
            using "4.IH"(5)[OF False nd True m rest "4.prems"(2)] by blast
          then show ?thesis using False nd True m by simp
        qed
      next
        case nf: False
        have "\<exists>r. walkEntries fs P exts d dirPath es results = Some r"
          using "4.IH"(6)[OF False nd nf rest "4.prems"(2)] by blast
        then show ?thesis using False nd nf by simp
      qed
    qed
  qed
qed

lemma walk_Suc:
  "walk fs P exts d dirPath results = Some r \<Longrightarrow> walk fs P exts (Suc d) dirPath results = Some r"
  "walkEntries fs P exts d dirPath es results = Some r \<Longrightarrow> walkEntries fs P exts (Suc d) dirPath es results = Some r"
proof (induction fs P exts d dirPath results and fs P exts d dirPath es results arbitrary: r and r rule: walk_walkEntries.induct)
  case (1 fs P exts dirPath results)
  then show ?case by simp
next
  case (2 fs P exts d dirPath results)
  show ?case
  proof (cases "readDirectory fs dirPath")
    case (Inl e)
    then show ?thesis using "2.prems" by simp
  next
    case (Inr entries)
    then have "walkEntries fs P exts d dirPath entries results = Some r"
      using "2.prems" by simp
    then have "walkEntries fs P exts (Suc d) dirPath entries results = Some r"
      using "2.IH"[OF Inr] by blast
    then show ?thesis using Inr by simp
  qed
next
  case (3 fs P exts d dirPath results)
  then show ?case by simp
next
  case (4 fs P exts d dirPath name fileType es results)
  show ?case
  proof (cases "name = ''.'' \<or> name = ''..''")
    case True
    then show ?thesis using "4.IH"(1)[OF True] "4.prems" by simp
  next
    case False
    show ?thesis
    proof (cases "fileType = FileType_Directory")
      case True
      then obtain r' where r': "walk fs P exts d (path_join P [dirPath, name]) results = Some r'"
        and rest: "walkEntries fs P exts d dirPath es r' = Some r"
        using "4.prems" False by (auto split: option.splits)
      have "walk fs P exts (Suc d) (path_join P [dirPath, name]) results = Some r'"
        using "4.IH"(2)[OF False True r'] .
      moreover have "walkEntries fs P exts (Suc d) dirPath es r' = Some r"
        using "4.IH"(3)[OF False True r' rest] .
      ultimately show ?thesis using False True by (simp del: walk.simps)
    next
      case nd: False
      show ?thesis
      proof (cases "fileType = FileType_File \<or> fileType = FileType_SymbolicLink")
        case True
        show ?thesis
        proof (cases "List.member exts (toLowerCase (path_extname P name))")
          case m: True
          then show ?thesis using "4.IH"(4)[OF False nd True m] "4.prems" False nd True by simp
        next
          case m: False
          then show ?thesis using "4.IH"(5)[OF False nd True m] "4.prems" False nd True by simp
        qed
      next
        case nf: False
        then show ?thesis using "4.IH"(6)[OF False nd nf] "4.prems" False nd by simp
      qed
    qed
  qed
qed

lemma walk_deeper:
  "walk fs P exts d dirPath results = Some r \<Longrightarrow> walk fs P exts (d + k) dirPath results = Some r"
proof (induction k)
  case 0
  then show ?case by simp
next
  case (Suc k)
  then have "walk fs P exts (Suc (d + k)) dirPath results = Some r"
    by (intro walk_Suc(1)) simp
  then show ?case by (simp del: walk.simps)
qed

lemma scanRuleFile_entry:
  "scanRuleFile fs P matter filePath rules = Inr (rules @ [ruleEntry fs P matter filePath])"
  by (simp add: scanRuleFile_def ruleEntry_def tryCatch_def bindE_def split: sum.splits)

lemma scanRuleFiles_entries:
  "scanRuleFiles fs P matter filePaths rules = Inr (rules @ map (ruleEntry fs P matter) filePaths)"
  by (induction filePaths arbitrary: rules) (simp_all add: scanRuleFile_entry bindE_def)

lemma parseRuleFromString_returns: "\<exists>parsed. parseRuleFromString matter text = Inr parsed"
  by (simp add: parseRuleFromString_def tryCatch_def bindE_def split: sum.splits)

text \<open>
  C2. On a directory tree that is well founded below the rules directory, scanRulesCore
  returns (at every recursion bound above the rank of the rules directory, and the same
  list at each) and does not throw; the list has one entry per discovered file, in the
  order of discovery. The entry of a file whose read fails carries the content "Error
  reading file content" and the description "Error parsing file"; the entry of a file that
  is read carries the metadata and the body that parseRuleFromString gives for its text.
\<close>

theorem scanRulesCore_batch:
  assumes "ranked fs P rank"
  shows "\<exists>filePaths rules.
           (\<forall>d. rank (path_join P [projectRoot, ''.cursor'', ''rules'']) < d \<longrightarrow>
              listFilesRecursive fs P d (path_join P [projectRoot, ''.cursor'', ''rules''])
                [''.mdc'', ''.md''] = Some filePaths \<and>
              scanRulesCore fs P matter d projectRoot userRoot = Some (Inr rules))
         \<and> length rules = length filePaths
         \<and> (\<forall>i < length filePaths.
              rule_path (rules ! i) = filePaths ! i \<and>
              rule_fileName (rules ! i) = path_basename P (filePaths ! i) \<and>
              (\<forall>e. readFile fs (filePaths ! i) = Inl e \<longrightarrow>
                 rule_content (rules ! i) = ''Error reading file content'' \<and>
                 rule_metadata (rules ! i) =
                   \<lparr>description = JStr ''Error parsing file'', globs = JUndefined,
                    alwaysApply = JUndefined\<rparr>) \<and>
              (\<forall>text. readFile fs (filePaths ! i) = Inr text \<longrightarrow>
                 (\<exists>parsed. parseRuleFromString matter text = Inr parsed \<and>
                    rule_metadata (rules ! i) = metadata parsed \<and>
                    rule_content (rules ! i) = body parsed)))"
proof -
  let ?dir = "path_join P [projectRoot, ''.cursor'', ''rules'']"
  let ?exts = "normalizeExtensions [''.mdc'', ''.md'']"
  obtain filePaths where fp: "walk fs P ?exts (Suc (rank ?dir)) ?dir [] = Some filePaths"
    using walk_enough(1)[OF assms, of ?dir "Suc (rank ?dir)" ?exts "[]"] by blast
  let ?rules = "map (ruleEntry fs P matter) filePaths"
  have all: "listFilesRecursive fs P d ?dir [''.mdc'', ''.md''] = Some filePaths \<and>
      scanRulesCore fs P matter d projectRoot userRoot = Some (Inr ?rules)" if "rank ?dir < d" for d
  proof -
    define k where "k = d - Suc (rank ?dir)"
    have "d = Suc (rank ?dir) + k"
      using that by (simp add: k_def)
    then have "walk fs P ?exts d ?dir [] = Some filePaths"
      using walk_deeper[OF fp, of k] by simp
    then show ?thesis
      by (simp add: listFilesRecursive_def scanRulesCore_def scanRuleFiles_entries)
  qed
  have each: "rule_path (?rules ! i) = filePaths ! i \<and>
              rule_fileName (?rules ! i) = path_basename P (filePaths ! i) \<and>
              (\<forall>e. readFile fs (filePaths ! i) = Inl e \<longrightarrow>
                 rule_content (?rules ! i) = ''Error reading file content'' \<and>
                 rule_metadata (?rules ! i) =
                   \<lparr>description = JStr ''Error parsing file'', globs = JUndefined,
                    alwaysApply = JUndefined\<rparr>) \<and>
              (\<forall>text. readFile fs (filePaths ! i) = Inr text \<longrightarrow>
                 (\<exists>parsed. parseRuleFromString matter text = Inr parsed \<and>
                    rule_metadata (?rules ! i) = metadata parsed \<and>
                    rule_content (?rules ! i) = body parsed))" if "i < length filePaths" for i
  proof -
    have nth: "?rules ! i = ruleEntry fs P matter (filePaths ! i)" using that by simp
    show ?thesis
    proof (cases "readFile fs (filePaths ! i)")
      case (Inl e)
      then show ?thesis unfolding nth by (simp add: ruleEntry_def)
    next
      case (Inr body_text)
      obtain parsed where "parseRuleFromString matter body_text = Inr parsed"
        using parseRuleFromString_returns by blast
      then show ?thesis using Inr unfolding nth by (simp add: ruleEntry_def)
    qed
  qed
  show ?thesis
    apply (rule exI[of _ filePaths])
    apply (rule exI[of _ ?rules])
    using all each by simp
qed

theorem scanRulesCore_batch_witness:
  "ranked sampleFs samplePath sampleRank
   \<and> sampleRank (path_join samplePath [''/proj'', ''.cursor'', ''rules'']) < 2
   \<and> listFilesRecursive sampleFs samplePath 2 (path_join samplePath [''/proj'', ''.cursor'', ''rules''])
        [''.mdc'', ''.md''] = Some [''/proj/.cursor/rules/a.mdc'', ''/proj/.cursor/rules/sub/b.md'']
   \<and> scanRulesCore sampleFs samplePath sampleMatter 2 ''/proj'' ''/home/u'' =
       Some (Inr [\<lparr>rule_path = ''/proj/.cursor/rules/a.mdc'',
                    rule_metadata = \<lparr>description = JStr ''Error parsing file'', globs = JUndefined,
                                      alwaysApply = JUndefined\<rparr>,
                    rule_content = ''Error reading file content'', rule_fileName = ''a.mdc''\<rparr>,
                  \<lparr>rule_path = ''/proj/.cursor/rules/sub/b.md'',
                    rule_metadata = \<lparr>description = JStr ''Style'', globs = JArr [],
                                      alwaysApply = JBool True\<rparr>,
                    rule_content = ''Use tabs.'', rule_fileName = ''b.md''\<rparr>])
   \<and> (\<exists>(filePaths :: string list) rules.
         scanRulesCore sampleFs samplePath sampleMatter 2 ''/proj'' ''/home/u'' = Some (Inr rules) \<and>
         length rules = length filePaths \<and> length filePaths = 2)"
proof -
  have rk: "ranked sampleFs samplePath sampleRank"
    by (auto simp: ranked_def sampleFs_def samplePath_def sampleRank_def FileType_File_def
        FileType_Directory_def split: if_splits)
  have lt: "sampleRank (path_join samplePath [''/proj'', ''.cursor'', ''rules'']) < 2"
    by (simp add: samplePath_def sampleRank_def)
  have ls: "listFilesRecursive sampleFs samplePath 2 (path_join samplePath [''/proj'', ''.cursor'', ''rules''])
        [''.mdc'', ''.md''] = Some [''/proj/.cursor/rules/a.mdc'', ''/proj/.cursor/rules/sub/b.md'']"
    by code_simp
  have ev: "scanRulesCore sampleFs samplePath sampleMatter 2 ''/proj'' ''/home/u'' =
       Some (Inr [\<lparr>rule_path = ''/proj/.cursor/rules/a.mdc'',
                    rule_metadata = \<lparr>description = JStr ''Error parsing file'', globs = JUndefined,
                                      alwaysApply = JUndefined\<rparr>,
                    rule_content = ''Error reading file content'', rule_fileName = ''a.mdc''\<rparr>,
                  \<lparr>rule_path = ''/proj/.cursor/rules/sub/b.md'',
                    rule_metadata = \<lparr>description = JStr ''Style'', globs = JArr [],
                                      alwaysApply = JBool True\<rparr>,
                    rule_content = ''Use tabs.'', rule_fileName = ''b.md''\<rparr>])"
    by code_simp
  obtain filePaths rules where
    a: "\<forall>d. sampleRank (path_join samplePath [''/proj'', ''.cursor'', ''rules'']) < d \<longrightarrow>
              listFilesRecursive sampleFs samplePath d (path_join samplePath [''/proj'', ''.cursor'', ''rules''])
                [''.mdc'', ''.md''] = Some filePaths \<and>
              scanRulesCore sampleFs samplePath sampleMatter d ''/proj'' ''/home/u'' = Some (Inr rules)"
    and b: "length rules = length filePaths"
    using scanRulesCore_batch[OF rk, of "''/proj''" sampleMatter "''/home/u''"] by blast
  have c: "listFilesRecursive sampleFs samplePath 2 (path_join samplePath [''/proj'', ''.cursor'', ''rules''])
                [''.mdc'', ''.md''] = Some filePaths \<and>
              scanRulesCore sampleFs samplePath sampleMatter 2 ''/proj'' ''/home/u'' = Some (Inr rules)"
    using a lt by blast
  then have "filePaths = [''/proj/.cursor/rules/a.mdc'', ''/proj/.cursor/rules/sub/b.md'']"
    using ls by simp
  then have "length filePaths = 2" by simp
  then have "\<exists>(filePaths :: string list) rules.
         scanRulesCore sampleFs samplePath sampleMatter 2 ''/proj'' ''/home/u'' = Some (Inr rules) \<and>
         length rules = length filePaths \<and> length filePaths = 2"
    using b c by (intro exI[of _ filePaths] exI[of _ rules]) simp
  then show ?thesis using rk lt ls ev by simp
qed

section \<open>Properties of scanAsdlcCore\<close>

lemma settles_Returns: "settles (Returns v)"
  by (simp add: settles_def)

lemma settles_ofSum: "settles (ofSum r)"
  by (simp add: settles_def ofSum_def split: sum.splits)

lemma settles_bindO:
  assumes "settles m" and "\<And>v. settles (k v)"
  shows "settles (bindO m k)"
proof (cases m)
  case (Returns v)
  then show ?thesis using assms(2)[of v] by (simp add: bindO_def)
next
  case (Throws e)
  then show ?thesis by (simp add: bindO_def settles_def)
next
  case Diverges
  then show ?thesis using assms(1) by (simp add: settles_def)
next
  case Unmodelled
  then show ?thesis using assms(1) by (simp add: settles_def)
qed

lemma settles_if: "settles a \<Longrightarrow> settles b \<Longrightarrow> settles (if c then a else b)"
  by simp

lemma tryCatchO_returns:
  "settles block \<Longrightarrow> (\<And>e. \<exists>v. handler e = Returns v) \<Longrightarrow> \<exists>v. tryCatchO block handler = Returns v"
  by (auto simp: settles_def tryCatchO_def split: outcome.splits)

lemma returns_settles: "\<exists>v. m = Returns v \<Longrightarrow> settles m"
  by (auto simp: settles_def)

lemma hasSection_Blueprint: "settles (hasSection content ''Blueprint'')"
proof -
  have "newRegExp (''^##'' @ [BACKSLASH] @ ''s+'' @ ''Blueprint'') =
      Returns [Bol, Lit ''#'', Lit ''#'', Rep CSpace 1 None, Lit ''B'', Lit ''l'', Lit ''u'',
               Lit ''e'', Lit ''p'', Lit ''r'', Lit ''i'', Lit ''n'', Lit ''t'']"
    by code_simp
  then show ?thesis by (auto simp: hasSection_def bindO_def settles_def)
qed

lemma hasSection_Contract: "settles (hasSection content ''Contract'')"
proof -
  have "newRegExp (''^##'' @ [BACKSLASH] @ ''s+'' @ ''Contract'') =
      Returns [Bol, Lit ''#'', Lit ''#'', Rep CSpace 1 None, Lit ''C'', Lit ''o'', Lit ''n'',
               Lit ''t'', Lit ''r'', Lit ''a'', Lit ''c'', Lit ''t'']"
    by code_simp
  then show ?thesis by (auto simp: hasSection_def bindO_def settles_def)
qed

lemma specEntry_returns: "\<exists>r. specEntry fs P toISOString specsPath name found = Returns r"
  unfolding specEntry_def
  by (intro tryCatchO_returns settles_bindO settles_ofSum settles_if settles_Returns
        hasSection_Blueprint hasSection_Contract)
     (auto intro!: settles_bindO settles_ofSum settles_Returns split: option.splits)

lemma specEntries_returns: "\<exists>r. specEntries fs P toISOString specsPath entries found = Returns r"
proof (induction entries arbitrary: found)
  case Nil
  then show ?case by simp
next
  case (Cons entry entries)
  obtain name fileType where e: "entry = (name, fileType)" by (cases entry)
  obtain r where r: "specEntry fs P toISOString specsPath name found = Returns r"
    using specEntry_returns by blast
  show ?case using Cons.IH[of found] Cons.IH[of r] r e by (simp add: bindO_def)
qed

lemma scanSpecsCore_returns: "\<exists>r. scanSpecsCore fs P toISOString projectRoot = Returns r"
  unfolding scanSpecsCore_def
  by (intro tryCatchO_returns settles_bindO settles_ofSum settles_if settles_Returns
        returns_settles specEntries_returns) auto

lemma schemaEntry_returns: "\<exists>r. schemaEntry fs P JSON_parse schemasPath name found = Returns r"
  unfolding schemaEntry_def
  by (intro tryCatchO_returns settles_bindO settles_ofSum settles_Returns) auto

lemma schemaEntries_returns: "\<exists>r. schemaEntries fs P JSON_parse schemasPath entries found = Returns r"
proof (induction entries arbitrary: found)
  case Nil
  then show ?case by simp
next
  case (Cons entry entries)
  obtain name fileType where e: "entry = (name, fileType)" by (cases entry)
  obtain r where r: "schemaEntry fs P JSON_parse schemasPath name found = Returns r"
    using schemaEntry_returns by blast
  show ?case using Cons.IH[of found] Cons.IH[of r] r e by (simp add: bindO_def)
qed

lemma scanSchemasCore_returns: "\<exists>r. scanSchemasCore fs P JSON_parse projectRoot = Returns r"
  unfolding scanSchemasCore_def
  by (intro tryCatchO_returns settles_bindO settles_ofSum settles_if settles_Returns
        returns_settles schemaEntries_returns) auto

lemma scanAgentsMdCore_returns: "\<exists>r. scanAgentsMdCore fs P projectRoot = Returns r"
  unfolding scanAgentsMdCore_def
  by (intro tryCatchO_returns settles_bindO settles_ofSum settles_if settles_Returns) auto

lemma scanAgentsMdCore_cases:
  "scanAgentsMdCore fs P projectRoot =
     Returns (case stat fs (path_join P [projectRoot, ''AGENTS.md'']) of
        Inl e \<Rightarrow> \<lparr>agents_exists = False, agents_path = None, agents_content = None,
                    agents_sections = []\<rparr>
      | Inr st \<Rightarrow>
          if stat_type st \<noteq> FileType_File
          then \<lparr>agents_exists = False, agents_path = None, agents_content = None,
                 agents_sections = []\<rparr>
          else (case readFile fs (path_join P [projectRoot, ''AGENTS.md'']) of
                  Inl e \<Rightarrow> \<lparr>agents_exists = False, agents_path = None, agents_content = None,
                              agents_sections = []\<rparr>
                | Inr content \<Rightarrow>
                    \<lparr>agents_exists = True,
                      agents_path = Some (path_join P [projectRoot, ''AGENTS.md'']),
                      agents_content = Some content,
                      agents_sections = parseSections (split_lines content)\<rparr>))"
  by (simp add: scanAgentsMdCore_def tryCatchO_def bindO_def ofSum_def split: sum.splits)

lemma scanSpecsCore_cases:
  "\<exists>found. scanSpecsCore fs P toISOString projectRoot =
     Returns (case stat fs (path_join P [projectRoot, ''specs'']) of
        Inl e \<Rightarrow> \<lparr>specs_exists = False, specs_path = None, specs = []\<rparr>
      | Inr st \<Rightarrow>
          if stat_type st \<noteq> FileType_Directory
          then \<lparr>specs_exists = False, specs_path = None, specs = []\<rparr>
          else (case readDirectory fs (path_join P [projectRoot, ''specs'']) of
                  Inl e \<Rightarrow> \<lparr>specs_exists = False, specs_path = None, specs = []\<rparr>
                | Inr entries \<Rightarrow>
                    \<lparr>specs_exists = True, specs_path = Some (path_join P [projectRoot, ''specs'']),
                      specs = found\<rparr>))"
proof (cases "stat fs (path_join P [projectRoot, ''specs''])")
  case (Inl e)
  then show ?thesis
    by (simp add: scanSpecsCore_def tryCatchO_def bindO_def ofSum_def)
next
  case (Inr st)
  show ?thesis
  proof (cases "readDirectory fs (path_join P [projectRoot, ''specs''])")
    case (Inl e)
    then show ?thesis using Inr
      by (simp add: scanSpecsCore_def tryCatchO_def bindO_def ofSum_def)
  next
    case (Inr entries)
    obtain found where
      "specEntries fs P toISOString (path_join P [projectRoot, ''specs'']) entries [] = Returns found"
      using specEntries_returns by blast
    then show ?thesis using Inr \<open>stat fs (path_join P [projectRoot, ''specs'']) = Inr st\<close>
      by (intro exI[of _ found]) (simp add: scanSpecsCore_def tryCatchO_def bindO_def ofSum_def)
  qed
qed

lemma scanSchemasCore_cases:
  "\<exists>found. scanSchemasCore fs P JSON_parse projectRoot =
     Returns (case stat fs (path_join P [projectRoot, ''schemas'']) of
        Inl e \<Rightarrow> \<lparr>schemas_exists = False, schemas_path = None, schemas = []\<rparr>
      | Inr st \<Rightarrow>
          if stat_type st \<noteq> FileType_Directory
          then \<lparr>schemas_exists = False, schemas_path = None, schemas = []\<rparr>
          else (case readDirectory fs (path_join P [projectRoot, ''schemas'']) of
                  Inl e \<Rightarrow> \<lparr>schemas_exists = False, schemas_path = None, schemas = []\<rparr>
                | Inr entries \<Rightarrow>
                    \<lparr>schemas_exists = True,
                      schemas_path = Some (path_join P [projectRoot, ''schemas'']),
                      schemas = found\<rparr>))"
proof (cases "stat fs (path_join P [projectRoot, ''schemas''])")
  case (Inl e)
  then show ?thesis
    by (simp add: scanSchemasCore_def tryCatchO_def bindO_def ofSum_def)
next
  case (Inr st)
  show ?thesis
  proof (cases "readDirectory fs (path_join P [projectRoot, ''schemas''])")
    case (Inl e)
    then show ?thesis using Inr
      by (simp add: scanSchemasCore_def tryCatchO_def bindO_def ofSum_def)
  next
    case (Inr entries)
    obtain found where
      "schemaEntries fs P JSON_parse (path_join P [projectRoot, ''schemas'']) entries [] = Returns found"
      using schemaEntries_returns by blast
    then show ?thesis using Inr \<open>stat fs (path_join P [projectRoot, ''schemas'']) = Inr st\<close>
      by (intro exI[of _ found]) (simp add: scanSchemasCore_def tryCatchO_def bindO_def ofSum_def)
  qed
qed

text \<open>
  C8. scanAsdlcCore always returns a bundle and never fails. Its three parts are what
  scanAgentsMdCore, scanSpecsCore and scanSchemasCore return on their own, each of which
  always returns, whatever the others find; hasAnyArtifacts is the disjunction of the three
  existence flags. Each part reports non-existence from its own path alone: the AGENTS.md
  part is exists = false with no sections when its path cannot be statted, is no file, or
  cannot be read, and exists = true otherwise; the specs part is exists = false with no
  specs when the specs path cannot be statted, is no directory, or cannot be listed, and
  exists = true otherwise; the schemas part does the same with the schemas path.
\<close>

theorem scanAsdlcCore_total:
  "\<exists>a sp sc.
      scanAgentsMdCore fs P projectRoot = Returns a
    \<and> scanSpecsCore fs P toISOString projectRoot = Returns sp
    \<and> scanSchemasCore fs P JSON_parse projectRoot = Returns sc
    \<and> scanAsdlcCore fs P JSON_parse toISOString projectRoot =
        Returns \<lparr>agentsMd = a, asdlc_specs = sp, asdlc_schemas = sc,
                  hasAnyArtifacts = (agents_exists a \<or> specs_exists sp \<or> schemas_exists sc)\<rparr>
    \<and> ((\<exists>e. stat fs (path_join P [projectRoot, ''specs'']) = Inl e) \<longrightarrow>
          sp = \<lparr>specs_exists = False, specs_path = None, specs = []\<rparr>)
    \<and> ((\<exists>st. stat fs (path_join P [projectRoot, ''specs'']) = Inr st \<and>
              stat_type st \<noteq> FileType_Directory) \<longrightarrow>
          sp = \<lparr>specs_exists = False, specs_path = None, specs = []\<rparr>)
    \<and> ((\<exists>e. readDirectory fs (path_join P [projectRoot, ''specs'']) = Inl e) \<longrightarrow>
          sp = \<lparr>specs_exists = False, specs_path = None, specs = []\<rparr>)
    \<and> (specs_exists sp \<longleftrightarrow>
          (\<exists>st entries. stat fs (path_join P [projectRoot, ''specs'']) = Inr st \<and>
              stat_type st = FileType_Directory \<and>
              readDirectory fs (path_join P [projectRoot, ''specs'']) = Inr entries))
    \<and> ((\<exists>e. stat fs (path_join P [projectRoot, ''AGENTS.md'']) = Inl e) \<longrightarrow>
          a = \<lparr>agents_exists = False, agents_path = None, agents_content = None,
                agents_sections = []\<rparr>)
    \<and> ((\<exists>st. stat fs (path_join P [projectRoot, ''AGENTS.md'']) = Inr st \<and>
              stat_type st \<noteq> FileType_File) \<longrightarrow>
          a = \<lparr>agents_exists = False, agents_path = None, agents_content = None,
                agents_sections = []\<rparr>)
    \<and> ((\<exists>e. readFile fs (path_join P [projectRoot, ''AGENTS.md'']) = Inl e) \<longrightarrow>
          a = \<lparr>agents_exists = False, agents_path = None, agents_content = None,
                agents_sections = []\<rparr>)
    \<and> (agents_exists a \<longleftrightarrow>
          (\<exists>st content. stat fs (path_join P [projectRoot, ''AGENTS.md'']) = Inr st \<and>
              stat_type st = FileType_File \<and>
              readFile fs (path_join P [projectRoot, ''AGENTS.md'']) = Inr content))
    \<and> ((\<exists>e. stat fs (path_join P [projectRoot, ''schemas'']) = Inl e) \<longrightarrow>
          sc = \<lparr>schemas_exists = False, schemas_path = None, schemas = []\<rparr>)
    \<and> ((\<exists>st. stat fs (path_join P [projectRoot, ''schemas'']) = Inr st \<and>
              stat_type st \<noteq> FileType_Directory) \<longrightarrow>
          sc = \<lparr>schemas_exists = False, schemas_path = None, schemas = []\<rparr>)
    \<and> ((\<exists>e. readDirectory fs (path_join P [projectRoot, ''schemas'']) = Inl e) \<longrightarrow>
          sc = \<lparr>schemas_exists = False, schemas_path = None, schemas = []\<rparr>)
    \<and> (schemas_exists sc \<longleftrightarrow>
          (\<exists>st entries. stat fs (path_join P [projectRoot, ''schemas'']) = Inr st \<and>
              stat_type st = FileType_Directory \<and>
              readDirectory fs (path_join P [projectRoot, ''schemas'']) = Inr entries))"
proof -
  define a where "a = (case stat fs (path_join P [projectRoot, ''AGENTS.md'']) of
        Inl e \<Rightarrow> \<lparr>agents_exists = False, agents_path = None, agents_content = None,
                    agents_sections = []\<rparr>
      | Inr st \<Rightarrow>
          if stat_type st \<noteq> FileType_File
          then \<lparr>agents_exists = False, agents_path = None, agents_content = None,
                 agents_sections = []\<rparr>
          else (case readFile fs (path_join P [projectRoot, ''AGENTS.md'']) of
                  Inl e \<Rightarrow> \<lparr>agents_exists = False, agents_path = None, agents_content = None,
                              agents_sections = []\<rparr>
                | Inr content \<Rightarrow>
                    \<lparr>agents_exists = True,
                      agents_path = Some (path_join P [projectRoot, ''AGENTS.md'']),
                      agents_content = Some content,
                      agents_sections = parseSections (split_lines content)\<rparr>))"
  have a: "scanAgentsMdCore fs P projectRoot = Returns a"
    unfolding a_def by (rule scanAgentsMdCore_cases)
  obtain found where spc: "scanSpecsCore fs P toISOString projectRoot =
     Returns (case stat fs (path_join P [projectRoot, ''specs'']) of
        Inl e \<Rightarrow> \<lparr>specs_exists = False, specs_path = None, specs = []\<rparr>
      | Inr st \<Rightarrow>
          if stat_type st \<noteq> FileType_Directory
          then \<lparr>specs_exists = False, specs_path = None, specs = []\<rparr>
          else (case readDirectory fs (path_join P [projectRoot, ''specs'']) of
                  Inl e \<Rightarrow> \<lparr>specs_exists = False, specs_path = None, specs = []\<rparr>
                | Inr entries \<Rightarrow>
                    \<lparr>specs_exists = True, specs_path = Some (path_join P [projectRoot, ''specs'']),
                      specs = found\<rparr>))"
    using scanSpecsCore_cases by blast
  define sp where "sp = (case stat fs (path_join P [projectRoot, ''specs'']) of
        Inl e \<Rightarrow> \<lparr>specs_exists = False, specs_path = None, specs = []\<rparr>
      | Inr st \<Rightarrow>
          if stat_type st \<noteq> FileType_Directory
          then \<lparr>specs_exists = False, specs_path = None, specs = []\<rparr>
          else (case readDirectory fs (path_join P [projectRoot, ''specs'']) of
                  Inl e \<Rightarrow> \<lparr>specs_exists = False, specs_path = None, specs = []\<rparr>
                | Inr entries \<Rightarrow>
                    \<lparr>specs_exists = True, specs_path = Some (path_join P [projectRoot, ''specs'']),
                      specs = found\<rparr>))"
  have sp: "scanSpecsCore fs P toISOString projectRoot = Returns sp"
    unfolding sp_def by (rule spc)
  obtain found' where scc: "scanSchemasCore fs P JSON_parse projectRoot =
     Returns (case stat fs (path_join P [projectRoot, ''schemas'']) of
        Inl e \<Rightarrow> \<lparr>schemas_exists = False, schemas_path = None, schemas = []\<rparr>
      | Inr st \<Rightarrow>
          if stat_type st \<noteq> FileType_Directory
          then \<lparr>schemas_exists = False, schemas_path = None, schemas = []\<rparr>
          else (case readDirectory fs (path_join P [projectRoot, ''schemas'']) of
                  Inl e \<Rightarrow> \<lparr>schemas_exists = False, schemas_path = None, schemas = []\<rparr>
                | Inr entries \<Rightarrow>
                    \<lparr>schemas_exists = True,
                      schemas_path = Some (path_join P [projectRoot, ''schemas'']),
                      schemas = found'\<rparr>))"
    using scanSchemasCore_cases by blast
  define sc where "sc = (case stat fs (path_join P [projectRoot, ''schemas'']) of
        Inl e \<Rightarrow> \<lparr>schemas_exists = False, schemas_path = None, schemas = []\<rparr>
      | Inr st \<Rightarrow>
          if stat_type st \<noteq> FileType_Directory
          then \<lparr>schemas_exists = False, schemas_path = None, schemas = []\<rparr>
          else (case readDirectory fs (path_join P [projectRoot, ''schemas'']) of
                  Inl e \<Rightarrow> \<lparr>schemas_exists = False, schemas_path = None, schemas = []\<rparr>
                | Inr entries \<Rightarrow>
                    \<lparr>schemas_exists = True,
                      schemas_path = Some (path_join P [projectRoot, ''schemas'']),
                      schemas = found'\<rparr>))"
  have sc: "scanSchemasCore fs P JSON_parse projectRoot = Returns sc"
    unfolding sc_def by (rule scc)
  have all: "scanAsdlcCore fs P JSON_parse toISOString projectRoot =
        Returns \<lparr>agentsMd = a, asdlc_specs = sp, asdlc_schemas = sc,
                  hasAnyArtifacts = (agents_exists a \<or> specs_exists sp \<or> schemas_exists sc)\<rparr>"
    by (simp add: scanAsdlcCore_def a sp sc bindO_def)
  have sp1: "(\<exists>e. stat fs (path_join P [projectRoot, ''specs'']) = Inl e) \<longrightarrow>
          sp = \<lparr>specs_exists = False, specs_path = None, specs = []\<rparr>"
    by (auto simp: sp_def)
  have sp2: "(\<exists>st. stat fs (path_join P [projectRoot, ''specs'']) = Inr st \<and>
              stat_type st \<noteq> FileType_Directory) \<longrightarrow>
          sp = \<lparr>specs_exists = False, specs_path = None, specs = []\<rparr>"
    by (auto simp: sp_def)
  have sp3: "(\<exists>e. readDirectory fs (path_join P [projectRoot, ''specs'']) = Inl e) \<longrightarrow>
          sp = \<lparr>specs_exists = False, specs_path = None, specs = []\<rparr>"
    by (auto simp: sp_def split: sum.splits)
  have sp4: "specs_exists sp \<longleftrightarrow>
          (\<exists>st entries. stat fs (path_join P [projectRoot, ''specs'']) = Inr st \<and>
              stat_type st = FileType_Directory \<and>
              readDirectory fs (path_join P [projectRoot, ''specs'']) = Inr entries)"
    by (auto simp: sp_def split: sum.splits)
  have a1: "(\<exists>e. stat fs (path_join P [projectRoot, ''AGENTS.md'']) = Inl e) \<longrightarrow>
          a = \<lparr>agents_exists = False, agents_path = None, agents_content = None,
                agents_sections = []\<rparr>"
    by (auto simp: a_def)
  have a2: "(\<exists>st. stat fs (path_join P [projectRoot, ''AGENTS.md'']) = Inr st \<and>
              stat_type st \<noteq> FileType_File) \<longrightarrow>
          a = \<lparr>agents_exists = False, agents_path = None, agents_content = None,
                agents_sections = []\<rparr>"
    by (auto simp: a_def)
  have a3: "(\<exists>e. readFile fs (path_join P [projectRoot, ''AGENTS.md'']) = Inl e) \<longrightarrow>
          a = \<lparr>agents_exists = False, agents_path = None, agents_content = None,
                agents_sections = []\<rparr>"
    by (auto simp: a_def split: sum.splits)
  have a4: "agents_exists a \<longleftrightarrow>
          (\<exists>st content. stat fs (path_join P [projectRoot, ''AGENTS.md'']) = Inr st \<and>
              stat_type st = FileType_File \<and>
              readFile fs (path_join P [projectRoot, ''AGENTS.md'']) = Inr content)"
    by (auto simp: a_def split: sum.splits)
  have sc1: "(\<exists>e. stat fs (path_join P [projectRoot, ''schemas'']) = Inl e) \<longrightarrow>
          sc = \<lparr>schemas_exists = False, schemas_path = None, schemas = []\<rparr>"
    by (auto simp: sc_def)
  have sc2: "(\<exists>st. stat fs (path_join P [projectRoot, ''schemas'']) = Inr st \<and>
              stat_type st \<noteq> FileType_Directory) \<longrightarrow>
          sc = \<lparr>schemas_exists = False, schemas_path = None, schemas = []\<rparr>"
    by (auto simp: sc_def)
  have sc3: "(\<exists>e. readDirectory fs (path_join P [projectRoot, ''schemas'']) = Inl e) \<longrightarrow>
          sc = \<lparr>schemas_exists = False, schemas_path = None, schemas = []\<rparr>"
    by (auto simp: sc_def split: sum.splits)
  have sc4: "schemas_exists sc \<longleftrightarrow>
          (\<exists>st entries. stat fs (path_join P [projectRoot, ''schemas'']) = Inr st \<and>
              stat_type st = FileType_Directory \<and>
              readDirectory fs (path_join P [projectRoot, ''schemas'']) = Inr entries)"
    by (auto simp: sc_def split: sum.splits)
  show ?thesis
    by (intro exI[of _ a] exI[of _ sp] exI[of _ sc] conjI a sp sc all
          sp1 sp2 sp3 sp4 a1 a2 a3 a4 sc1 sc2 sc3 sc4)
qed

theorem scanAsdlcCore_total_witness:
  "scanAsdlcCore sampleAsdlcFs samplePath sampleJsonParse sampleToISOString ''/proj'' =
     Returns \<lparr>agentsMd = \<lparr>agents_exists = True, agents_path = Some ''/proj/AGENTS.md'',
                            agents_content = Some ''# Agents\<newline>\<newline>Intro'',
                            agents_sections = [\<lparr>level = 1, title = ''Agents'', startLine = 0,
                                                endLine = 2\<rparr>]\<rparr>,
               asdlc_specs = \<lparr>specs_exists = False, specs_path = None, specs = []\<rparr>,
               asdlc_schemas = \<lparr>schemas_exists = True, schemas_path = Some ''/proj/schemas'',
                                schemas = [\<lparr>schema_name = ''a'', schema_path = ''/proj/schemas/a.json'',
                                            schemaId = JStr ''urn:a''\<rparr>,
                                           \<lparr>schema_name = ''b'', schema_path = ''/proj/schemas/b.json'',
                                            schemaId = JUndefined\<rparr>]\<rparr>,
               hasAnyArtifacts = True\<rparr>
   \<and> stat sampleAsdlcFs (path_join samplePath [''/proj'', ''specs'']) = Inl (FsError ''ENOENT'')
   \<and> scanSpecsCore sampleAsdlcFs samplePath sampleToISOString ''/proj'' =
       Returns \<lparr>specs_exists = False, specs_path = None, specs = []\<rparr>
   \<and> stat sampleAsdlcFs (path_join samplePath [''/none'', ''AGENTS.md'']) = Inl (FsError ''ENOENT'')
   \<and> stat sampleAsdlcFs (path_join samplePath [''/none'', ''specs'']) = Inl (FsError ''ENOENT'')
   \<and> stat sampleAsdlcFs (path_join samplePath [''/none'', ''schemas'']) = Inl (FsError ''ENOENT'')
   \<and> scanAsdlcCore sampleAsdlcFs samplePath sampleJsonParse sampleToISOString ''/none'' =
     Returns \<lparr>agentsMd = \<lparr>agents_exists = False, agents_path = None, agents_content = None,
                            agents_sections = []\<rparr>,
               asdlc_specs = \<lparr>specs_exists = False, specs_path = None, specs = []\<rparr>,
               asdlc_schemas = \<lparr>schemas_exists = False, schemas_path = None, schemas = []\<rparr>,
               hasAnyArtifacts = False\<rparr>
   \<and> stat sampleBareFs (path_join samplePath [''/proj'', ''AGENTS.md'']) =
       Inr \<lparr>stat_type = FileType_Directory, stat_mtime = None\<rparr>
   \<and> stat sampleBareFs (path_join samplePath [''/proj'', ''schemas'']) =
       Inr \<lparr>stat_type = FileType_File, stat_mtime = None\<rparr>
   \<and> readDirectory sampleBareFs (path_join samplePath [''/proj'', ''specs'']) = Inl (FsError ''EACCES'')
   \<and> scanAsdlcCore sampleBareFs samplePath sampleJsonParse sampleToISOString ''/proj'' =
     Returns \<lparr>agentsMd = \<lparr>agents_exists = False, agents_path = None, agents_content = None,
                            agents_sections = []\<rparr>,
               asdlc_specs = \<lparr>specs_exists = False, specs_path = None, specs = []\<rparr>,
               asdlc_schemas = \<lparr>schemas_exists = False, schemas_path = None, schemas = []\<rparr>,
               hasAnyArtifacts = False\<rparr>"
proof -
  have ev: "scanAsdlcCore sampleAsdlcFs samplePath sampleJsonParse sampleToISOString ''/proj'' =
     Returns \<lparr>agentsMd = \<lparr>agents_exists = True, agents_path = Some ''/proj/AGENTS.md'',
                            agents_content = Some ''# Agents\<newline>\<newline>Intro'',
                            agents_sections = [\<lparr>level = 1, title = ''Agents'', startLine = 0,
                                                endLine = 2\<rparr>]\<rparr>,
               asdlc_specs = \<lparr>specs_exists = False, specs_path = None, specs = []\<rparr>,
               asdlc_schemas = \<lparr>schemas_exists = True, schemas_path = Some ''/proj/schemas'',
                                schemas = [\<lparr>schema_name = ''a'', schema_path = ''/proj/schemas/a.json'',
                                            schemaId = JStr ''urn:a''\<rparr>,
                                           \<lparr>schema_name = ''b'', schema_path = ''/proj/schemas/b.json'',
                                            schemaId = JUndefined\<rparr>]\<rparr>,
               hasAnyArtifacts = True\<rparr>"
    by code_simp
  have st: "stat sampleAsdlcFs (path_join samplePath [''/proj'', ''specs'']) = Inl (FsError ''ENOENT'')"
    by (simp add: sampleAsdlcFs_def samplePath_def)
  obtain a sp sc where
    sp: "scanSpecsCore sampleAsdlcFs samplePath sampleToISOString ''/proj'' = Returns sp"
    and ab: "(\<exists>e. stat sampleAsdlcFs (path_join samplePath [''/proj'', ''specs'']) = Inl e) \<longrightarrow>
          sp = \<lparr>specs_exists = False, specs_path = None, specs = []\<rparr>"
  proof -
    from scanAsdlcCore_total[of sampleAsdlcFs samplePath "''/proj''" sampleToISOString sampleJsonParse] show ?thesis
      by (elim exE conjE) (rule that; assumption)
  qed
  have "sp = \<lparr>specs_exists = False, specs_path = None, specs = []\<rparr>"
    using ab st by blast
  then have one: "scanSpecsCore sampleAsdlcFs samplePath sampleToISOString ''/proj'' =
       Returns \<lparr>specs_exists = False, specs_path = None, specs = []\<rparr>"
    using sp by simp
  have n1: "stat sampleAsdlcFs (path_join samplePath [''/none'', ''AGENTS.md'']) = Inl (FsError ''ENOENT'')"
    and n2: "stat sampleAsdlcFs (path_join samplePath [''/none'', ''specs'']) = Inl (FsError ''ENOENT'')"
    and n3: "stat sampleAsdlcFs (path_join samplePath [''/none'', ''schemas'']) = Inl (FsError ''ENOENT'')"
    by (simp_all add: sampleAsdlcFs_def samplePath_def)
  obtain a' sp' sc' where
    all': "scanAsdlcCore sampleAsdlcFs samplePath sampleJsonParse sampleToISOString ''/none'' =
        Returns \<lparr>agentsMd = a', asdlc_specs = sp', asdlc_schemas = sc',
                  hasAnyArtifacts = (agents_exists a' \<or> specs_exists sp' \<or> schemas_exists sc')\<rparr>"
    and a': "(\<exists>e. stat sampleAsdlcFs (path_join samplePath [''/none'', ''AGENTS.md'']) = Inl e) \<longrightarrow>
          a' = \<lparr>agents_exists = False, agents_path = None, agents_content = None,
                 agents_sections = []\<rparr>"
    and sp': "(\<exists>e. stat sampleAsdlcFs (path_join samplePath [''/none'', ''specs'']) = Inl e) \<longrightarrow>
          sp' = \<lparr>specs_exists = False, specs_path = None, specs = []\<rparr>"
    and sc': "(\<exists>e. stat sampleAsdlcFs (path_join samplePath [''/none'', ''schemas'']) = Inl e) \<longrightarrow>
          sc' = \<lparr>schemas_exists = False, schemas_path = None, schemas = []\<rparr>"
  proof -
    from scanAsdlcCore_total[of sampleAsdlcFs samplePath "''/none''" sampleToISOString sampleJsonParse] show ?thesis
      by (elim exE conjE) (rule that; assumption)
  qed
  have "a' = \<lparr>agents_exists = False, agents_path = None, agents_content = None, agents_sections = []\<rparr>"
    "sp' = \<lparr>specs_exists = False, specs_path = None, specs = []\<rparr>"
    "sc' = \<lparr>schemas_exists = False, schemas_path = None, schemas = []\<rparr>"
    using a' sp' sc' n1 n2 n3 by blast+
  then have two: "scanAsdlcCore sampleAsdlcFs samplePath sampleJsonParse sampleToISOString ''/none'' =
     Returns \<lparr>agentsMd = \<lparr>agents_exists = False, agents_path = None, agents_content = None,
                            agents_sections = []\<rparr>,
               asdlc_specs = \<lparr>specs_exists = False, specs_path = None, specs = []\<rparr>,
               asdlc_schemas = \<lparr>schemas_exists = False, schemas_path = None, schemas = []\<rparr>,
               hasAnyArtifacts = False\<rparr>"
    using all' by simp
  have b1: "stat sampleBareFs (path_join samplePath [''/proj'', ''AGENTS.md'']) =
       Inr \<lparr>stat_type = FileType_Directory, stat_mtime = None\<rparr>"
    and b2: "stat sampleBareFs (path_join samplePath [''/proj'', ''schemas'']) =
       Inr \<lparr>stat_type = FileType_File, stat_mtime = None\<rparr>"
    and b3: "readDirectory sampleBareFs (path_join samplePath [''/proj'', ''specs'']) = Inl (FsError ''EACCES'')"
    by (simp_all add: sampleBareFs_def samplePath_def)
  have ty: "FileType_Directory \<noteq> FileType_File"
    by (simp add: FileType_Directory_def FileType_File_def)
  obtain a2 sp2 sc2 where
    all2: "scanAsdlcCore sampleBareFs samplePath sampleJsonParse sampleToISOString ''/proj'' =
        Returns \<lparr>agentsMd = a2, asdlc_specs = sp2, asdlc_schemas = sc2,
                  hasAnyArtifacts = (agents_exists a2 \<or> specs_exists sp2 \<or> schemas_exists sc2)\<rparr>"
    and a2: "(\<exists>st. stat sampleBareFs (path_join samplePath [''/proj'', ''AGENTS.md'']) = Inr st \<and>
              stat_type st \<noteq> FileType_File) \<longrightarrow>
          a2 = \<lparr>agents_exists = False, agents_path = None, agents_content = None,
                 agents_sections = []\<rparr>"
    and sp2: "(\<exists>e. readDirectory sampleBareFs (path_join samplePath [''/proj'', ''specs'']) = Inl e) \<longrightarrow>
          sp2 = \<lparr>specs_exists = False, specs_path = None, specs = []\<rparr>"
    and sc2: "(\<exists>st. stat sampleBareFs (path_join samplePath [''/proj'', ''schemas'']) = Inr st \<and>
              stat_type st \<noteq> FileType_Directory) \<longrightarrow>
          sc2 = \<lparr>schemas_exists = False, schemas_path = None, schemas = []\<rparr>"
  proof -
    from scanAsdlcCore_total[of sampleBareFs samplePath "''/proj''" sampleToISOString sampleJsonParse] show ?thesis
      by (elim exE conjE) (rule that; assumption)
  qed
  have "a2 = \<lparr>agents_exists = False, agents_path = None, agents_content = None, agents_sections = []\<rparr>"
    using a2 b1 ty by simp
  moreover have "sp2 = \<lparr>specs_exists = False, specs_path = None, specs = []\<rparr>"
    using sp2 b3 by blast
  moreover have "sc2 = \<lparr>schemas_exists = False, schemas_path = None, schemas = []\<rparr>"
    using sc2 b2 ty by simp
  ultimately have three: "scanAsdlcCore sampleBareFs samplePath sampleJsonParse sampleToISOString ''/proj'' =
     Returns \<lparr>agentsMd = \<lparr>agents_exists = False, agents_path = None, agents_content = None,
                            agents_sections = []\<rparr>,
               asdlc_specs = \<lparr>specs_exists = False, specs_path = None, specs = []\<rparr>,
               asdlc_schemas = \<lparr>schemas_exists = False, schemas_path = None, schemas = []\<rparr>,
               hasAnyArtifacts = False\<rparr>"
    using all2 by simp
  show ?thesis
    by (intro conjI ev st one n1 n2 n3 two b1 b2 b3 three)
qed

section \<open>Properties of the interpolated patterns\<close>



lemma literal_head:
  assumes "\<forall>c \<in> set name. \<not> isSyntaxChar c"
  shows "name @ rest = [] \<or> rest = [] \<and> name = [] \<or> name \<noteq> [] \<and> \<not> isQuantifierChar (hd name) \<and> hd name \<noteq> CHR ''{'' \<and> hd name \<noteq> CHR ''?'' \<or> name = []"
  using assms by (cases name) (auto simp: isSyntaxChar_def isQuantifierChar_def)





































section \<open>extractTierItems on a tier with a deeper heading\<close>

text \<open>
  C7. On the document \<open>tierDoc\<close>, whose tier 1 holds the bullets a and b with a level-4
  heading between them, extractTierItems returns only a for tier 1. After the tier heading
  (19 characters), the next level-2-or-3 heading is matched at offset 41 of the rest, and
  the bullets of the rest up to there are a and b; but the end of the slice is taken as the
  first occurrence of the matched text \<open>### \<close>, which is at offset 17, inside the level-4
  heading.
\<close>

theorem extractTierItems_stops_early:
  "extractTierItems tierDoc ''tier 1'' ''always'' = Returns [''a'']
   \<and> map_option m_index (rx_match mFlags nextHeadingRx (drop 19 tierDoc)) = Some 41
   \<and> map_option m_text (rx_match mFlags nextHeadingRx (drop 19 tierDoc)) = Some ''### ''
   \<and> js_indexOf (drop 19 tierDoc) ''### '' = 17
   \<and> bindO (execAll mFlags bulletRx (take 41 (drop 19 tierDoc)))
         (\<lambda>matches. Returns (map (\<lambda>m. trim (group m 2)) matches)) = Returns [''a'', ''b'']"
  by code_simp
section \<open>Properties of extractMission and extractCorePhilosophy\<close>

lemma quote_caps:
  assumes "x \<in> set (ms f [Lit a, Rep b 0 None, Lit c, Rep d 0 None, Grp 1 [Rep CDot 1 None]] (ps, []))"
  shows "\<exists>cap. snd x = [(1, cap)] \<and> (\<forall>ch \<in> set cap. \<not> isLineTerminator ch)"
proof -
  obtain y1 where y1: "y1 \<in> set (ms1 f (Lit a) (ps, []))"
    and x1: "x \<in> set (ms f [Rep b 0 None, Lit c, Rep d 0 None, Grp 1 [Rep CDot 1 None]] y1)"
    using assms unfolding ms_Cons_mem[of x f "Lit a"] by blast
  have c1: "y1 = (fst y1, [])" using ms1_Lit_caps[OF y1] by (cases y1) simp
  obtain y2 where y2: "y2 \<in> set (ms1 f (Rep b 0 None) (fst y1, []))"
    and x2: "x \<in> set (ms f [Lit c, Rep d 0 None, Grp 1 [Rep CDot 1 None]] y2)"
    using x1 c1 unfolding ms_Cons_mem[of x f "Rep b 0 None"] by metis
  have c2: "y2 = (fst y2, [])" using ms1_Rep_caps[OF y2] by (cases y2) simp
  obtain y3 where y3: "y3 \<in> set (ms1 f (Lit c) (fst y2, []))"
    and x3: "x \<in> set (ms f [Rep d 0 None, Grp 1 [Rep CDot 1 None]] y3)"
    using x2 c2 unfolding ms_Cons_mem[of x f "Lit c"] by metis
  have c3: "y3 = (fst y3, [])" using ms1_Lit_caps[OF y3] by (cases y3) simp
  obtain y4 where y4: "y4 \<in> set (ms1 f (Rep d 0 None) (fst y3, []))"
    and x4: "x \<in> set (ms f [Grp 1 [Rep CDot 1 None]] y4)"
    using x3 c3 unfolding ms_Cons_mem[of x f "Rep d 0 None"] by metis
  have c4: "y4 = (fst y4, [])" using ms1_Rep_caps[OF y4] by (cases y4) simp
  have "x \<in> set (ms f [Grp 1 [Rep CDot 1 None]] (fst y4, []))"
    using x4 c4 by metis
  then show ?thesis using group_dot_caps by blast
qed

lemma extractMission_single_line:
  assumes "extractMission content = Some t"
  shows "\<forall>c \<in> set t. \<not> isLineTerminator c"
proof -
  obtain m where m: "rx_match noFlags missionRx content = Some m" and t: "t = trim (group m 1)"
    using assms by (auto simp: extractMission_def split: option.splits)
  obtain k where "(m_after m, m_groups m) \<in>
        set (ms noFlags missionRx ((if k = 0 then None else Some (content ! (k - 1)), drop k content), []))"
    using search_Some_mem[of noFlags missionRx 0 None content m] m by (auto simp: rx_match_def)
  then obtain cap where "m_groups m = [(1, cap)]" "\<forall>ch \<in> set cap. \<not> isLineTerminator ch"
    using quote_caps unfolding missionRx_def by fastforce
  then show ?thesis using t set_trim[of cap] by (auto simp: group_def)
qed

lemma extractCorePhilosophy_single_line:
  assumes "extractCorePhilosophy content = Some t"
  shows "\<forall>c \<in> set t. \<not> isLineTerminator c"
proof -
  obtain m where m: "rx_match noFlags philosophyRx content = Some m" and t: "t = trim (group m 1)"
    using assms by (auto simp: extractCorePhilosophy_def split: option.splits)
  obtain k where "(m_after m, m_groups m) \<in>
        set (ms noFlags philosophyRx ((if k = 0 then None else Some (content ! (k - 1)), drop k content), []))"
    using search_Some_mem[of noFlags philosophyRx 0 None content m] m by (auto simp: rx_match_def)
  then obtain cap where "m_groups m = [(1, cap)]" "\<forall>ch \<in> set cap. \<not> isLineTerminator ch"
    using quote_caps unfolding philosophyRx_def by fastforce
  then show ?thesis using t set_trim[of cap] by (auto simp: group_def)
qed

lemma quote_first:
  assumes f: "ignoreCase f = False"
    and s: "snd ps = ''>'' @ w1 @ marker @ w2 @ t @ rest"
    and w1: "\<forall>c \<in> set w1. isWhiteSpace c"
    and w2: "\<forall>c \<in> set w2. isWhiteSpace c"
    and m: "marker \<noteq> []" "\<not> isWhiteSpace (hd marker)"
    and t: "t \<noteq> []" "\<not> isWhiteSpace (hd t)" "\<forall>c \<in> set t. \<not> isLineTerminator c"
    and r: "rest = [] \<or> isLineTerminator (hd rest)"
  shows "\<exists>ps' others. ms f [Lit ''>'', Rep CSpace 0 None, Lit marker, Rep CSpace 0 None,
                              Grp 1 [Rep CDot 1 None]] (ps, []) = (ps', [(1, t)]) # others"
proof -
  let ?p1 = "consume (length ''>'') ps"
  let ?p2 = "consume (length w1) ?p1"
  let ?p3 = "consume (length marker) ?p2"
  let ?p4 = "consume (length w2) ?p3"
  have s1: "snd ?p1 = w1 @ (marker @ w2 @ t @ rest)" using s by (simp add: snd_consume)
  have s2: "snd ?p2 = marker @ (w2 @ t @ rest)" using s1 by (simp add: snd_consume)
  have s3: "snd ?p3 = w2 @ (t @ rest)" using s2 by (simp add: snd_consume)
  have s4: "snd ?p4 = t @ rest" using s3 by (simp add: snd_consume)
  obtain o4 where g: "ms f [Grp 1 [Rep CDot 1 None]] (?p4, []) = (consume (length t) ?p4, [(1, t)]) # o4"
    using group_first[OF s4 t(1) t(3) r] by blast
  have n4: "t @ rest = [] \<or> \<not> clsMatch (ignoreCase f) CSpace (hd (t @ rest))"
    using t(1,2) by (cases t) simp_all
  have a4: "\<forall>c \<in> set w2. clsMatch (ignoreCase f) CSpace c" using w2 by simp
  obtain o3 where r3: "ms f [Rep CSpace 0 None, Grp 1 [Rep CDot 1 None]] (?p3, []) =
      (consume (length t) ?p4, [(1, t)]) # o3"
    using ms_Rep_first[OF s3 a4 n4 _ g] by blast
  have l3: "ms f [Lit marker, Rep CSpace 0 None, Grp 1 [Rep CDot 1 None]] (?p2, []) =
      (consume (length t) ?p4, [(1, t)]) # o3"
    unfolding ms_Lit_step using s2 r3 litMatch_prefix by simp
  have n2: "marker @ w2 @ t @ rest = [] \<or> \<not> clsMatch (ignoreCase f) CSpace (hd (marker @ w2 @ t @ rest))"
    using m by (cases marker) simp_all
  have a2: "\<forall>c \<in> set w1. clsMatch (ignoreCase f) CSpace c" using w1 by simp
  obtain o1 where r1: "ms f [Rep CSpace 0 None, Lit marker, Rep CSpace 0 None, Grp 1 [Rep CDot 1 None]] (?p1, []) =
      (consume (length t) ?p4, [(1, t)]) # o1"
    using ms_Rep_first[OF s1 a2 n2 _ l3] by blast
  have "litMatch (ignoreCase f) ''>'' (snd ps)" using s by simp
  then have "ms f [Lit ''>'', Rep CSpace 0 None, Lit marker, Rep CSpace 0 None, Grp 1 [Rep CDot 1 None]] (ps, []) =
      (consume (length t) ?p4, [(1, t)]) # o1"
    unfolding ms_Lit_step[of f "''>''"] using r1 by simp
  then show ?thesis by blast
qed

lemma quote_needs_gt:
  assumes "ignoreCase f = False" and "snd ps = [] \<or> hd (snd ps) \<noteq> CHR ''>''"
  shows "ms f (Lit ''>'' # rs) (ps, cs) = []"
proof -
  have "\<not> litMatch False ''>'' (snd ps)"
    using assms(2) by (cases "snd ps") auto
  then show ?thesis unfolding ms_Lit_step using assms(1) by simp
qed

lemma quote_extract:
  assumes r: "r = [Lit ''>'', Rep CSpace 0 None, Lit marker, Rep CSpace 0 None, Grp 1 [Rep CDot 1 None]]"
    and c: "content = pre @ ''>'' @ w1 @ marker @ w2 @ t @ rest"
    and before: "\<forall>j < length pre. \<not> matchesAt noFlags r content j"
    and w1: "\<forall>c \<in> set w1. isWhiteSpace c"
    and w2: "\<forall>c \<in> set w2. isWhiteSpace c"
    and m: "marker \<noteq> []" "\<not> isWhiteSpace (hd marker)"
    and t: "t \<noteq> []" "\<not> isWhiteSpace (hd t)" "\<forall>c \<in> set t. \<not> isLineTerminator c"
    and rest: "rest = [] \<or> isLineTerminator (hd rest)"
  shows "\<exists>mt. rx_match noFlags r content = Some mt \<and> group mt 1 = t"
proof -
  let ?k = "length pre"
  let ?ps = "(if ?k = 0 then None else Some (content ! (?k - 1)), drop ?k content)"
  have le: "?k \<le> length content" using c by simp
  have sn: "snd ?ps = ''>'' @ w1 @ marker @ w2 @ t @ rest" using c by simp
  have ic: "ignoreCase noFlags = False" by (simp add: noFlags_def)
  obtain ps' others where first: "ms noFlags r (?ps, []) = (ps', [(1, t)]) # others"
    using quote_first[OF ic sn w1 w2 m t rest] unfolding r by blast
  have nb: "\<forall>j < ?k. ms noFlags r ((if j = 0 then None else Some (content ! (j - 1)), drop j content), []) = []"
    using before by (simp add: matchesAt_def posAt_def)
  have "search noFlags r 0 None content =
        Some (RMatch (0 + ?k) (take (length (drop ?k content) - length (snd ps')) (drop ?k content)) [(1, t)] ps')"
    using search_found[OF le nb first] .
  then show ?thesis by (simp add: rx_match_def group_def)
qed

lemma no_gt_no_match:
  assumes r: "r = Lit ''>'' # rs" and "CHR ''>'' \<notin> set pre" and "j < length pre"
  shows "\<not> matchesAt noFlags r (pre @ post) j"
proof -
  have "hd (drop j (pre @ post)) = pre ! j"
    using assms(3) by (simp add: hd_drop_conv_nth nth_append)
  moreover have "pre ! j \<noteq> CHR ''>''" using assms(2,3) by (metis nth_mem)
  ultimately have "snd (posAt (pre @ post) j) = [] \<or> hd (snd (posAt (pre @ post) j)) \<noteq> CHR ''>''"
    by (simp add: posAt_def)
  then have "ms noFlags (Lit ''>'' # rs) (posAt (pre @ post) j, []) = []"
    by (intro quote_needs_gt) (simp_all add: noFlags_def)
  then show ?thesis by (simp add: matchesAt_def r)
qed

text \<open>
  C9 (amended). extractMission is absent exactly when the pattern
  \<open>>\s*\*\*Project Mission:\*\*\s*(.+)\<close> matches at no offset of the text. Its result never
  holds a line break. When the text is \<open>pre > w1 **Project Mission:** w2 t rest\<close>, with no
  match starting in \<open>pre\<close>, \<open>w1\<close> and \<open>w2\<close> white space (line breaks included), \<open>t\<close> a
  piece of one line that starts with a visible character and runs to the end of its line,
  the result is \<open>t\<close> trimmed, whatever \<open>rest\<close> holds: the first match wins and a later
  matching line never contributes. extractCorePhilosophy does the same with
  \<open>**Core Philosophy:**\<close>.
\<close>

theorem extractMission_first_match:
  "(extractMission content = None \<longleftrightarrow> (\<forall>k \<le> length content. \<not> matchesAt noFlags missionRx content k))
   \<and> (\<forall>res. extractMission content = Some res \<longrightarrow> (\<forall>c \<in> set res. \<not> isLineTerminator c))
   \<and> (content = pre @ ''>'' @ w1 @ ''**Project Mission:**'' @ w2 @ t @ rest \<and>
        (\<forall>j < length pre. \<not> matchesAt noFlags missionRx content j) \<and>
        (\<forall>c \<in> set w1. isWhiteSpace c) \<and> (\<forall>c \<in> set w2. isWhiteSpace c) \<and>
        t \<noteq> [] \<and> \<not> isWhiteSpace (hd t) \<and> (\<forall>c \<in> set t. \<not> isLineTerminator c) \<and>
        (rest = [] \<or> isLineTerminator (hd rest))
       \<longrightarrow> extractMission content = Some (trim t))
   \<and> (extractCorePhilosophy content = None \<longleftrightarrow>
        (\<forall>k \<le> length content. \<not> matchesAt noFlags philosophyRx content k))
   \<and> (\<forall>res. extractCorePhilosophy content = Some res \<longrightarrow> (\<forall>c \<in> set res. \<not> isLineTerminator c))
   \<and> (content = pre @ ''>'' @ w1 @ ''**Core Philosophy:**'' @ w2 @ t @ rest \<and>
        (\<forall>j < length pre. \<not> matchesAt noFlags philosophyRx content j) \<and>
        (\<forall>c \<in> set w1. isWhiteSpace c) \<and> (\<forall>c \<in> set w2. isWhiteSpace c) \<and>
        t \<noteq> [] \<and> \<not> isWhiteSpace (hd t) \<and> (\<forall>c \<in> set t. \<not> isLineTerminator c) \<and>
        (rest = [] \<or> isLineTerminator (hd rest))
       \<longrightarrow> extractCorePhilosophy content = Some (trim t))"
proof -
  have m1: "extractMission content = None \<longleftrightarrow> (\<forall>k \<le> length content. \<not> matchesAt noFlags missionRx content k)"
    using rx_match_none_iff[of noFlags missionRx content]
    by (cases "rx_match noFlags missionRx content") (auto simp: extractMission_def)
  have m2: "\<forall>res. extractMission content = Some res \<longrightarrow> (\<forall>c \<in> set res. \<not> isLineTerminator c)"
    using extractMission_single_line by blast
  have m3: "content = pre @ ''>'' @ w1 @ ''**Project Mission:**'' @ w2 @ t @ rest \<and>
        (\<forall>j < length pre. \<not> matchesAt noFlags missionRx content j) \<and>
        (\<forall>c \<in> set w1. isWhiteSpace c) \<and> (\<forall>c \<in> set w2. isWhiteSpace c) \<and>
        t \<noteq> [] \<and> \<not> isWhiteSpace (hd t) \<and> (\<forall>c \<in> set t. \<not> isLineTerminator c) \<and>
        (rest = [] \<or> isLineTerminator (hd rest))
       \<longrightarrow> extractMission content = Some (trim t)"
  proof
    assume a: "content = pre @ ''>'' @ w1 @ ''**Project Mission:**'' @ w2 @ t @ rest \<and>
        (\<forall>j < length pre. \<not> matchesAt noFlags missionRx content j) \<and>
        (\<forall>c \<in> set w1. isWhiteSpace c) \<and> (\<forall>c \<in> set w2. isWhiteSpace c) \<and>
        t \<noteq> [] \<and> \<not> isWhiteSpace (hd t) \<and> (\<forall>c \<in> set t. \<not> isLineTerminator c) \<and>
        (rest = [] \<or> isLineTerminator (hd rest))"
    have r: "missionRx = [Lit ''>'', Rep CSpace 0 None, Lit ''**Project Mission:**'', Rep CSpace 0 None,
                        Grp 1 [Rep CDot 1 None]]"
      by (simp add: missionRx_def)
    have mk: "''**Project Mission:**'' \<noteq> []" "\<not> isWhiteSpace (hd ''**Project Mission:**'')"
      by (simp_all add: isWhiteSpace_def)
    have c: "content = pre @ ''>'' @ w1 @ ''**Project Mission:**'' @ w2 @ t @ rest" using a by blast
    have before: "\<forall>j < length pre. \<not> matchesAt noFlags missionRx content j" using a by blast
    have w1: "\<forall>c \<in> set w1. isWhiteSpace c" and w2: "\<forall>c \<in> set w2. isWhiteSpace c"
      using a by blast+
    have t: "t \<noteq> []" "\<not> isWhiteSpace (hd t)" "\<forall>c \<in> set t. \<not> isLineTerminator c"
      using a by blast+
    have rest: "rest = [] \<or> isLineTerminator (hd rest)" using a by blast
    have "\<exists>mt. rx_match noFlags missionRx content = Some mt \<and> group mt 1 = t"
      using quote_extract[OF r c before w1 w2 mk t rest] .
    then show "extractMission content = Some (trim t)"
      by (auto simp: extractMission_def)
  qed
  have p1: "extractCorePhilosophy content = None \<longleftrightarrow>
        (\<forall>k \<le> length content. \<not> matchesAt noFlags philosophyRx content k)"
    using rx_match_none_iff[of noFlags philosophyRx content]
    by (cases "rx_match noFlags philosophyRx content") (auto simp: extractCorePhilosophy_def)
  have p2: "\<forall>res. extractCorePhilosophy content = Some res \<longrightarrow> (\<forall>c \<in> set res. \<not> isLineTerminator c)"
    using extractCorePhilosophy_single_line by blast
  have p3: "content = pre @ ''>'' @ w1 @ ''**Core Philosophy:**'' @ w2 @ t @ rest \<and>
        (\<forall>j < length pre. \<not> matchesAt noFlags philosophyRx content j) \<and>
        (\<forall>c \<in> set w1. isWhiteSpace c) \<and> (\<forall>c \<in> set w2. isWhiteSpace c) \<and>
        t \<noteq> [] \<and> \<not> isWhiteSpace (hd t) \<and> (\<forall>c \<in> set t. \<not> isLineTerminator c) \<and>
        (rest = [] \<or> isLineTerminator (hd rest))
       \<longrightarrow> extractCorePhilosophy content = Some (trim t)"
  proof
    assume a: "content = pre @ ''>'' @ w1 @ ''**Core Philosophy:**'' @ w2 @ t @ rest \<and>
        (\<forall>j < length pre. \<not> matchesAt noFlags philosophyRx content j) \<and>
        (\<forall>c \<in> set w1. isWhiteSpace c) \<and> (\<forall>c \<in> set w2. isWhiteSpace c) \<and>
        t \<noteq> [] \<and> \<not> isWhiteSpace (hd t) \<and> (\<forall>c \<in> set t. \<not> isLineTerminator c) \<and>
        (rest = [] \<or> isLineTerminator (hd rest))"
    have r: "philosophyRx = [Lit ''>'', Rep CSpace 0 None, Lit ''**Core Philosophy:**'', Rep CSpace 0 None,
                        Grp 1 [Rep CDot 1 None]]"
      by (simp add: philosophyRx_def)
    have mk: "''**Core Philosophy:**'' \<noteq> []" "\<not> isWhiteSpace (hd ''**Core Philosophy:**'')"
      by (simp_all add: isWhiteSpace_def)
    have c: "content = pre @ ''>'' @ w1 @ ''**Core Philosophy:**'' @ w2 @ t @ rest" using a by blast
    have before: "\<forall>j < length pre. \<not> matchesAt noFlags philosophyRx content j" using a by blast
    have w1: "\<forall>c \<in> set w1. isWhiteSpace c" and w2: "\<forall>c \<in> set w2. isWhiteSpace c"
      using a by blast+
    have t: "t \<noteq> []" "\<not> isWhiteSpace (hd t)" "\<forall>c \<in> set t. \<not> isLineTerminator c"
      using a by blast+
    have rest: "rest = [] \<or> isLineTerminator (hd rest)" using a by blast
    have "\<exists>mt. rx_match noFlags philosophyRx content = Some mt \<and> group mt 1 = t"
      using quote_extract[OF r c before w1 w2 mk t rest] .
    then show "extractCorePhilosophy content = Some (trim t)"
      by (auto simp: extractCorePhilosophy_def)
  qed
  show ?thesis using m1 m2 m3 p1 p2 p3 by blast
qed

theorem extractMission_first_match_witness:
  "extractMission ''# AGENTS\<newline>\<newline>> **Project Mission:** Build amazing software. \<newline>> **Core Philosophy:** Explicit artifacts.\<newline>> **Project Mission:** Second.\<newline>''
     = Some ''Build amazing software.''
   \<and> extractCorePhilosophy ''# AGENTS\<newline>\<newline>> **Project Mission:** Build amazing software. \<newline>> **Core Philosophy:** Explicit artifacts.\<newline>> **Project Mission:** Second.\<newline>''
     = Some ''Explicit artifacts.''
   \<and> extractMission ''# Title\<newline>\<newline>No mission here.'' = None
   \<and> \<not> matchesAt noFlags missionRx ''# Title\<newline>\<newline>No mission here.'' 3"
proof -
  let ?C = "''# AGENTS\<newline>\<newline>> **Project Mission:** Build amazing software. \<newline>> **Core Philosophy:** Explicit artifacts.\<newline>> **Project Mission:** Second.\<newline>''"
  let ?pre = "''# AGENTS\<newline>\<newline>''"
  let ?t = "''Build amazing software. ''"
  let ?rest = "''\<newline>> **Core Philosophy:** Explicit artifacts.\<newline>> **Project Mission:** Second.\<newline>''"
  have c: "?C = ?pre @ ''>'' @ '' '' @ ''**Project Mission:**'' @ '' '' @ ?t @ ?rest" by simp
  have before: "\<forall>j < length ?pre. \<not> matchesAt noFlags missionRx ?C j"
  proof (intro allI impI)
    fix j assume j: "j < length ?pre"
    have "\<not> matchesAt noFlags missionRx (?pre @ (''>'' @ '' '' @ ''**Project Mission:**'' @ '' '' @ ?t @ ?rest)) j"
      by (rule no_gt_no_match[OF _ _ j]) (simp_all add: missionRx_def)
    then show "\<not> matchesAt noFlags missionRx ?C j" by simp
  qed
  have ws: "\<forall>c \<in> set '' ''. isWhiteSpace c" by (simp add: isWhiteSpace_def)
  have t: "?t \<noteq> [] \<and> \<not> isWhiteSpace (hd ?t) \<and> (\<forall>c \<in> set ?t. \<not> isLineTerminator c)"
    by (simp add: isWhiteSpace_def isLineTerminator_def)
  have r: "?rest = [] \<or> isLineTerminator (hd ?rest)" by (simp add: isLineTerminator_def)
  have "extractMission ?C = Some (trim ?t)"
    using extractMission_first_match[of ?C ?pre "'' ''" "'' ''" ?t ?rest] c before ws t r by blast
  moreover have "trim ?t = ''Build amazing software.''" by code_simp
  ultimately have a: "extractMission ?C = Some ''Build amazing software.''" by simp
  have b: "extractCorePhilosophy ?C = Some ''Explicit artifacts.''" by code_simp
  have n: "extractMission ''# Title\<newline>\<newline>No mission here.'' = None" by code_simp
  have "\<not> matchesAt noFlags missionRx ''# Title\<newline>\<newline>No mission here.'' 3"
    using extractMission_first_match[of "''# Title\<newline>\<newline>No mission here.''"] n by simp
  then show ?thesis using a b n by simp
qed

theorem extractMission_next_line_counterexample:
  "split_lines ''> **Project Mission:**\<newline>> Build amazing software'' =
     [''> **Project Mission:**'', ''> Build amazing software'']
   \<and> extractMission ''> **Project Mission:**\<newline>> Build amazing software'' =
     Some ''> Build amazing software''"
  by code_simp
section \<open>Properties of extractTechStack\<close>

lemma find_none: "\<forall>x \<in> set xs. \<not> P x \<Longrightarrow> find P xs = None"
  by (induction xs) simp_all

lemma parseSections_headings:
  "map (\<lambda>s. (startLine s, level s, title s)) (parseSections lines) =
     map (\<lambda>(i, l). (int i, headingLevel l, headingTitle l)) (headingLines lines)"
  unfolding parseSections_def headingLines_def
  using loop_headings[of "int (length lines)" 0 lines None] by simp

lemma headingLines_split:
  "headingLines (pre @ h # inner @ rest) =
     filter (\<lambda>(i, l). isHeading l) (enumerate 0 pre) @
     filter (\<lambda>(i, l). isHeading l) [(length pre, h)] @
     filter (\<lambda>(i, l). isHeading l) (enumerate (Suc (length pre)) inner) @
     filter (\<lambda>(i, l). isHeading l) (enumerate (Suc (length pre + length inner)) rest)"
  by (simp add: headingLines_def enumerate_append_eq)

lemma findIndex_map: "findIndex (\<lambda>x. Q (g x)) xs = findIndex Q (map g xs)"
  by (induction xs) simp_all

lemma findIndex_append:
  "\<forall>a \<in> set as. \<not> Q a \<Longrightarrow> Q b \<Longrightarrow> findIndex Q (as @ b # cs) = Some (length as)"
  by (induction as) simp_all

lemma find_map: "map_option g (find (\<lambda>x. Q (g x)) xs) = find Q (map g xs)"
  by (induction xs) simp_all

lemma find_append: "\<forall>b \<in> set bs. \<not> Q b \<Longrightarrow> Q c \<Longrightarrow> find Q (bs @ c # cs) = Some c"
  by (induction bs) simp_all

lemma techStack_span:
  assumes lines: "split_lines content = pre @ h # inner @ rest"
    and h: "isHeading h" "isTechTitle (headingTitle h)"
    and pre: "\<forall>l \<in> set pre. isHeading l \<longrightarrow> \<not> isTechTitle (headingTitle l)"
    and inner: "\<forall>l \<in> set inner. isHeading l \<longrightarrow> headingLevel l \<noteq> 2"
    and rest: "rest = [] \<or> isHeading (hd rest) \<and> headingLevel (hd rest) = 2"
  shows "\<exists>idx. findIndex isTechStackTitle (parseSections (split_lines content)) = Some idx \<and>
     sectionContent content (parseSections (split_lines content)) idx = join_lines (h # inner)"
proof -
  let ?P = "\<lambda>(i :: nat, l). isHeading l"
  let ?f = "\<lambda>(i :: nat, l). (int i, headingLevel l, headingTitle l)"
  let ?g = "\<lambda>s. (startLine s, level s, title s)"
  let ?ss = "parseSections (split_lines content)"
  let ?A = "filter ?P (enumerate 0 pre)"
  let ?B = "filter ?P (enumerate (Suc (length pre)) inner)"
  let ?C = "filter ?P (enumerate (Suc (length pre + length inner)) rest)"
  let ?t = "(int (length pre), headingLevel h, headingTitle h)"
  let ?idx = "length ?A"
  have T: "map ?g ?ss = map ?f ?A @ ?t # map ?f ?B @ map ?f ?C"
    unfolding parseSections_headings lines headingLines_split using h(1) by simp
  have noA: "\<forall>a \<in> set (map ?f ?A). \<not> isTechTitle (snd (snd a))"
    using pre by (auto simp: in_set_enumerate_eq)
  have noB: "\<forall>b \<in> set (map ?f ?B). fst (snd b) \<noteq> 2"
    using inner by (auto simp: in_set_enumerate_eq)
  have idx: "findIndex isTechStackTitle ?ss = Some ?idx"
  proof -
    have "isTechStackTitle = (\<lambda>s. isTechTitle (snd (snd (?g s))))"
      by (simp add: isTechStackTitle_def isTechTitle_def fun_eq_iff)
    then have "findIndex isTechStackTitle ?ss =
        findIndex (\<lambda>t. isTechTitle (snd (snd t))) (map ?g ?ss)"
      using findIndex_map[of "\<lambda>t. isTechTitle (snd (snd t))" ?g ?ss] by simp
    also have "\<dots> = Some (length (map ?f ?A))"
      unfolding T using noA h(2) by (intro findIndex_append) simp_all
    finally show ?thesis by simp
  qed
  have len: "?idx < length ?ss"
    using arg_cong[OF T, of length] by simp
  have start: "startLine (?ss ! ?idx) = int (length pre)"
  proof -
    have "?g (?ss ! ?idx) = map ?g ?ss ! ?idx" using len by simp
    also have "\<dots> = ?t" unfolding T by (simp add: nth_append)
    finally show ?thesis by simp
  qed
  have dropT: "map ?g (drop (?idx + 1) ?ss) = map ?f ?B @ map ?f ?C"
  proof -
    have "map ?g (drop (?idx + 1) ?ss) = drop (?idx + 1) (map ?g ?ss)" by (simp add: drop_map)
    also have "\<dots> = map ?f ?B @ map ?f ?C" unfolding T by simp
    finally show ?thesis .
  qed
  have fnd: "map_option ?g (find (\<lambda>s. level s = 2) (drop (?idx + 1) ?ss)) =
      find (\<lambda>t. fst (snd t) = 2) (map ?f ?B @ map ?f ?C)"
    using find_map[of ?g "\<lambda>t. fst (snd t) = 2" "drop (?idx + 1) ?ss"] unfolding dropT by simp
  have "sectionContent content ?ss ?idx = join_lines (h # inner)"
  proof (cases rest)
    case Nil
    then have "find (\<lambda>t. fst (snd t) = (2::nat)) (map ?f ?B @ map ?f ?C) = None"
      using noB by (intro find_none) simp
    then have "find (\<lambda>s. level s = 2) (drop (?idx + 1) ?ss) = None"
      using fnd by simp
    then show ?thesis
      using start Nil lines by (simp add: sectionContent_def slice_def Let_def)
  next
    case (Cons h2 r)
    then have h2: "isHeading h2" "headingLevel h2 = 2" using rest by simp_all
    let ?n = "Suc (length pre + length inner)"
    have "map ?f ?C = (int ?n, headingLevel h2, headingTitle h2) #
        map ?f (filter ?P (enumerate (Suc ?n) r))"
      using Cons h2(1) by simp
    then have "find (\<lambda>t. fst (snd t) = (2::nat)) (map ?f ?B @ map ?f ?C) =
        Some (int ?n, headingLevel h2, headingTitle h2)"
      using noB h2(2) by (simp add: find_append)
    then obtain s where s: "find (\<lambda>s. level s = 2) (drop (?idx + 1) ?ss) = Some s"
      and "?g s = (int ?n, headingLevel h2, headingTitle h2)"
      using fnd by (cases "find (\<lambda>s. level s = 2) (drop (?idx + 1) ?ss)") auto
    then have "startLine s = int ?n" by simp
    moreover have "nat (int (length inner) + 1) = Suc (length inner)" by linarith
    ultimately show ?thesis
      using start s Cons lines by (simp add: sectionContent_def slice_def Let_def)
  qed
  then show ?thesis using idx by blast
qed

text \<open>
  C6 (amended). Let the lines of a document be \<open>pre @ h # inner @ rest\<close>, where \<open>h\<close> is the
  first heading whose title contains "tech stack" or "technology" in any letter case,
  \<open>inner\<close> has no level-2 heading, and \<open>rest\<close> is empty or starts with a level-2 heading.
  Then extractTechStack returns what the five extractions return on the text of
  \<open>h # inner\<close> alone: the span ends on the line before the next level-2 heading (or on the
  last line), so the bullets of later level-2 sections are excluded and nested level-3
  subsections are included. In particular the languages are exactly \<open>["TypeScript"]\<close>
  when \<open>- **Language:** TypeScript\<close> is the only language bullet of that span.
\<close>

theorem extractTechStack_cutoff:
  assumes "split_lines content = pre @ h # inner @ rest"
    and "isHeading h" and "isTechTitle (headingTitle h)"
    and "\<forall>l \<in> set pre. isHeading l \<longrightarrow> \<not> isTechTitle (headingTitle l)"
    and "\<forall>l \<in> set inner. isHeading l \<longrightarrow> headingLevel l \<noteq> 2"
    and "rest = [] \<or> isHeading (hd rest) \<and> headingLevel (hd rest) = 2"
  shows "extractTechStack content (parseSections (split_lines content)) =
     techStackOfSpan (join_lines (h # inner))"
proof -
  obtain idx where "findIndex isTechStackTitle (parseSections (split_lines content)) = Some idx"
    and "sectionContent content (parseSections (split_lines content)) idx = join_lines (h # inner)"
    using techStack_span[OF assms] by blast
  then show ?thesis by (simp add: extractTechStack_def techStackOfSpan_def)
qed

theorem extractTechStack_cutoff_witness:
  "split_lines techStackDoc =
     [''# Project'', ''intro''] @ ''## Tech Stack'' #
     [''- **Language:** TypeScript'', ''### Tooling'', ''- **Build:** esbuild''] @
     [''## Testing'', ''- **Language:** ShouldNotAppear'']
   \<and> isHeading ''## Tech Stack'' \<and> isTechTitle (headingTitle ''## Tech Stack'')
   \<and> isHeading ''# Project'' \<and> \<not> isTechTitle (headingTitle ''# Project'')
   \<and> \<not> isHeading ''intro'' \<and> \<not> isHeading ''- **Language:** TypeScript''
   \<and> isHeading ''### Tooling'' \<and> headingLevel ''### Tooling'' = 3
   \<and> \<not> isHeading ''- **Build:** esbuild''
   \<and> isHeading ''## Testing'' \<and> headingLevel ''## Testing'' = 2
   \<and> extractTechStack techStackDoc (parseSections (split_lines techStackDoc)) =
       Returns (Some \<lparr>languages = [''TypeScript''], frameworks = [], buildTools = [''esbuild''],
                       testing = [], packageManager = None\<rparr>)"
proof -
  let ?pre = "[''# Project'', ''intro'']"
  let ?h = "''## Tech Stack''"
  let ?inner = "[''- **Language:** TypeScript'', ''### Tooling'', ''- **Build:** esbuild'']"
  let ?rest = "[''## Testing'', ''- **Language:** ShouldNotAppear'']"
  have lines: "split_lines techStackDoc = ?pre @ ?h # ?inner @ ?rest" by code_simp
  have h: "isHeading ?h" "isTechTitle (headingTitle ?h)" by code_simp+
  have p: "isHeading ''# Project''" "\<not> isTechTitle (headingTitle ''# Project'')"
    "\<not> isHeading ''intro''" by code_simp+
  have i: "\<not> isHeading ''- **Language:** TypeScript''" "isHeading ''### Tooling''"
    "headingLevel ''### Tooling'' = 3" "\<not> isHeading ''- **Build:** esbuild''" by code_simp+
  have r: "isHeading ''## Testing''" "headingLevel ''## Testing'' = 2" by code_simp+
  have sp: "techStackOfSpan (join_lines (?h # ?inner)) =
       Returns (Some \<lparr>languages = [''TypeScript''], frameworks = [], buildTools = [''esbuild''],
                       testing = [], packageManager = None\<rparr>)"
    by code_simp
  have pre: "\<forall>l \<in> set ?pre. isHeading l \<longrightarrow> \<not> isTechTitle (headingTitle l)"
    using p by simp
  have inner: "\<forall>l \<in> set ?inner. isHeading l \<longrightarrow> headingLevel l \<noteq> 2"
    using i by simp
  have rest: "?rest = [] \<or> isHeading (hd ?rest) \<and> headingLevel (hd ?rest) = 2"
    using r by simp
  have "extractTechStack techStackDoc (parseSections (split_lines techStackDoc)) =
      techStackOfSpan (join_lines (?h # ?inner))"
    by (rule extractTechStack_cutoff[OF lines h pre inner rest])
  then have res: "extractTechStack techStackDoc (parseSections (split_lines techStackDoc)) =
       Returns (Some \<lparr>languages = [''TypeScript''], frameworks = [], buildTools = [''esbuild''],
                       testing = [], packageManager = None\<rparr>)"
    unfolding sp .
  show ?thesis
    by (intro conjI lines h p i r res)
qed

theorem extractTechStack_two_languages_counterexample:
  "split_lines twoLanguagesDoc =
     [''## Tech Stack'', ''- **Language:** TypeScript'', ''- **Language:** Go'',
      ''## Testing'', ''- **Language:** ShouldNotAppear'']
   \<and> parseSections (split_lines twoLanguagesDoc) =
     [\<lparr>level = 2, title = ''Tech Stack'', startLine = 0, endLine = 2\<rparr>,
      \<lparr>level = 2, title = ''Testing'', startLine = 3, endLine = 4\<rparr>]
   \<and> extractTechStack twoLanguagesDoc (parseSections (split_lines twoLanguagesDoc)) =
       Returns (Some \<lparr>languages = [''TypeScript'', ''Go''], frameworks = [], buildTools = [],
                       testing = [], packageManager = None\<rparr>)"
  by code_simp


end
